theory Spec2Isabelle
  imports Complex_Main "HOL-Library.Option_ord" "HOL-Library.Product_Lexorder"
    "HOL-Library.Multiset"
begin

chapter \<open>Series tracking and new-release detection\<close>

text \<open>
  A shallow embedding of the series-tracking code: the Audible catalog client
  (\<^verbatim>\<open>server/providers/Audible.js\<close>), the series finder
  (\<^verbatim>\<open>server/finders/SeriesFinder.js\<close>), the two Sequelize models
  \<^verbatim>\<open>TrackedSeries\<close> and \<^verbatim>\<open>NewRelease\<close> with their migration, the
  \<^verbatim>\<open>NewReleaseManager\<close> and the \<^verbatim>\<open>followSeries\<close> handler of the controller.

  Conventions.
  \<^item> A JavaScript value that may be \<^verbatim>\<open>undefined\<close> or \<^verbatim>\<open>null\<close> is an \<open>option\<close>;
    \<open>None\<close> stands for both (the code only tests them for truthiness or passes them on).
  \<^item> A string is a sequence of ASCII characters, as the identifiers, regions and URLs of
    the provider are. On such a string \<^verbatim>\<open>toUpperCase\<close> maps \<open>a\<close>..\<open>z\<close> to
    \<open>A\<close>..\<open>Z\<close> and leaves every other character alone, which is what \<open>toUpperCase\<close>
    below does. JavaScript also maps letters outside ASCII, some to more than one
    character; the model does not, so what is proved of a string is proved of an ASCII
    string.
  \<^item> Payloads are typed: a record lists the properties the code reads, each optional.
  \<^item> An \<^verbatim>\<open>async\<close> function that can reject returns \<open>error + 'a\<close> together with
    the world it leaves behind; \<^verbatim>\<open>await\<close> is \<open>await\<close> below.
\<close>

section \<open>JavaScript strings and truthiness\<close>

text \<open>\<^verbatim>\<open>!!s\<close> for a string that may be missing: false for a missing and for the empty string.\<close>

definition truthy :: "string option \<Rightarrow> bool" where
  "truthy v = (case v of None \<Rightarrow> False | Some s \<Rightarrow> s \<noteq> [])"

definition upperChar :: "char \<Rightarrow> char" where
  "upperChar c =
     (case map_of (zip ''abcdefghijklmnopqrstuvwxyz'' ''ABCDEFGHIJKLMNOPQRSTUVWXYZ'') c of
        None \<Rightarrow> c
      | Some u \<Rightarrow> u)"

definition toUpperCase :: "string \<Rightarrow> string" where
  "toUpperCase s = map upperChar s"

text \<open>\<^verbatim>\<open>\d\<close> of a regular expression without the unicode flag.\<close>

definition isDigit :: "char \<Rightarrow> bool" where
  "isDigit c = (c \<in> set ''0123456789'')"

text \<open>\<^verbatim>\<open>\w\<close>: letters, digits and the underscore.\<close>

definition isWordChar :: "char \<Rightarrow> bool" where
  "isWordChar c =
     (c \<in> set ''abcdefghijklmnopqrstuvwxyzABCDEFGHIJKLMNOPQRSTUVWXYZ0123456789_'')"

text \<open>
  \<^verbatim>\<open>encodeURIComponent\<close>: letters, digits and \<^verbatim>\<open>- _ . ! ~ * ' ( )\<close> stay, every other
  character becomes \<^verbatim>\<open>%XX\<close> with its code in upper-case hexadecimal.
\<close>

definition hexDigit :: "nat \<Rightarrow> char" where
  "hexDigit n = ''0123456789ABCDEF'' ! (n mod 16)"

definition uriUnreserved :: "char \<Rightarrow> bool" where
  "uriUnreserved c =
     (c \<in> set ''abcdefghijklmnopqrstuvwxyzABCDEFGHIJKLMNOPQRSTUVWXYZ0123456789-_.!~*()''
      \<or> c = CHR 0x27)"

definition encodeURIComponent :: "string \<Rightarrow> string" where
  "encodeURIComponent s =
     concat (map (\<lambda>c. if uriUnreserved c then [c]
                        else [CHR ''%'', hexDigit (of_char c div 16), hexDigit (of_char c)]) s)"

text \<open>\<^verbatim>\<open>names.join(', ')\<close>.\<close>

fun join :: "string list \<Rightarrow> string" where
  "join [] = []"
| "join [x] = x"
| "join (x # y # ys) = x @ '', '' @ join (y # ys)"

text \<open>\<^verbatim>\<open>xs.filter(Boolean)\<close> on a list of objects that may be \<^verbatim>\<open>null\<close>.\<close>

definition filterBoolean :: "'a option list \<Rightarrow> 'a list" where
  "filterBoolean xs = concat (map (\<lambda>x. case x of None \<Rightarrow> [] | Some v \<Rightarrow> [v]) xs)"

section \<open>The catalog client (\<^verbatim>\<open>Audible\<close>)\<close>

subsection \<open>Sequence cleaning\<close>

text \<open>
  The regular expression \<^verbatim>\<open>/\.\d+|\d+(?:\.\d+)?/\<close> tried at the head of the input: the
  matched text, if the head matches. The first alternative needs a dot and then digits;
  the second takes all leading digits and then, greedily, a dot with digits after it.
\<close>

fun matchNumberAt :: "string \<Rightarrow> string option" where
  "matchNumberAt [] = None"
| "matchNumberAt (c # cs) =
     (if c = CHR ''.'' then
        (if takeWhile isDigit cs = [] then None else Some (c # takeWhile isDigit cs))
      else if isDigit c then
        (case dropWhile isDigit cs of
           [] \<Rightarrow> Some (c # takeWhile isDigit cs)
         | d # fs \<Rightarrow>
             if d = CHR ''.'' \<and> takeWhile isDigit fs \<noteq> []
             then Some (c # takeWhile isDigit cs @ d # takeWhile isDigit fs)
             else Some (c # takeWhile isDigit cs))
      else None)"

text \<open>\<^verbatim>\<open>sequence.match(re)\<close> without the global flag: the match at the leftmost position
  that has one.\<close>

fun matchNumber :: "string \<Rightarrow> string option" where
  "matchNumber [] = None"
| "matchNumber (c # cs) =
     (case matchNumberAt (c # cs) of Some m \<Rightarrow> Some m | None \<Rightarrow> matchNumber cs)"

definition cleanSeriesSequence :: "string option \<Rightarrow> string option \<Rightarrow> string" where
  "cleanSeriesSequence seriesName sequence =
     (case sequence of
        None \<Rightarrow> []
      | Some s \<Rightarrow>
          if s = [] then []
          else (case matchNumber s of Some numberFound \<Rightarrow> numberFound | None \<Rightarrow> s))"

text \<open>
  What the specification calls a decimal-or-integer number, written from its words and not
  from the regular expression: a dot and digits, or digits, or digits, a dot and digits.
\<close>

definition isNumberText :: "string \<Rightarrow> bool" where
  "isNumberText r =
     (case r of
        [] \<Rightarrow> False
      | c # cs \<Rightarrow>
          if c = CHR ''.'' then cs \<noteq> [] \<and> list_all isDigit cs
          else isDigit c \<and>
            (case dropWhile isDigit cs of
               [] \<Rightarrow> True
             | d # fs \<Rightarrow> d = CHR ''.'' \<and> fs \<noteq> [] \<and> list_all isDigit fs))"

subsection \<open>Payloads\<close>

text \<open>
  The body of a provider response, with the properties the code reads. Field names are
  global in Isabelle, so each carries a short prefix of its record (\<open>p_asin\<close> is the
  payload's \<^verbatim>\<open>asin\<close>, \<open>rel_type\<close> a relationship's \<^verbatim>\<open>relationship_type\<close>). One record serves
  the three endpoints: the book lookup answers with the book's own properties, the
  similarity endpoint with \<^verbatim>\<open>similar_products\<close>, the product endpoint with \<^verbatim>\<open>product\<close>.
\<close>

record seriesRef =
  sr_asin :: "string option"
  sr_name :: "string option"
  sr_position :: "string option"

record similarProduct =
  sp_asin :: "string option"

record relationship =
  rel_asin :: "string option"
  rel_title :: "string option"
  rel_sequence :: "string option"
  rel_to_product :: "string option"
  rel_type :: "string option"

record productSeries =
  ps_asin :: "string option"
  ps_title :: "string option"
  ps_sequence :: "string option"

record product =
  pr_series :: "productSeries list option"
  pr_relationships :: "relationship list option"

record payload =
  p_asin :: "string option"
  p_title :: "string option"
  p_authors :: "string list option"
  p_narrators :: "string list option"
  p_releaseDate :: "string option"
  p_image :: "string option"
  p_seriesPrimary :: "seriesRef option"
  p_seriesSecondary :: "seriesRef option"
  p_similar_products :: "similarProduct list option"
  p_product :: "product option"

text \<open>
  \<^verbatim>\<open>axios.get(url, { timeout })\<close>: the body of the response, or \<open>None\<close> when the request
  rejects (transport failure, timeout, a status outside 2xx).
\<close>

type_synonym network = "string \<Rightarrow> payload option"

text \<open>
  \<^verbatim>\<open>cleanResult\<close>, restricted to the properties of its result that the finder reads
  (\<^verbatim>\<open>title, author, narrator, publishedYear, cover, asin, series\<close>).
\<close>

record seriesSequence =
  ss_series :: "string option"
  ss_sequence :: string

record book =
  b_title :: "string option"
  b_author :: "string option"
  b_narrator :: "string option"
  b_publishedYear :: "string option"
  b_cover :: "string option"
  b_asin :: "string option"
  b_series :: "seriesSequence list option"

definition positionOrEmpty :: "string option \<Rightarrow> string option" where
  "positionOrEmpty p = (if truthy p then p else Some [])"

definition cleanResult :: "payload \<Rightarrow> book" where
  "cleanResult item =
     (let series1 = (case p_seriesPrimary item of
                       None \<Rightarrow> []
                     | Some sp \<Rightarrow> [\<lparr>ss_series = sr_name sp,
                                   ss_sequence = cleanSeriesSequence (sr_name sp) (positionOrEmpty (sr_position sp))\<rparr>]);
          series2 = (case p_seriesSecondary item of
                       None \<Rightarrow> series1
                     | Some ss \<Rightarrow> series1 @ [\<lparr>ss_series = sr_name ss,
                                   ss_sequence = cleanSeriesSequence (sr_name ss) (positionOrEmpty (sr_position ss))\<rparr>])
      in \<lparr>b_title = p_title item,
          b_author = map_option join (p_authors item),
          b_narrator = map_option join (p_narrators item),
          b_publishedYear = (if truthy (p_releaseDate item)
                             then map_option (takeWhile (\<lambda>c. c \<noteq> CHR ''-'')) (p_releaseDate item)
                             else None),
          b_cover = p_image item,
          b_asin = p_asin item,
          b_series = (if series2 = [] then None else Some series2)\<rparr>)"

subsection \<open>Regions\<close>

text \<open>The own properties of \<^verbatim>\<open>this.regionMap\<close>, as the constructor writes them.\<close>

definition regionMap :: "string \<Rightarrow> string option" where
  "regionMap = map_of
     [(''us'', ''.com''), (''ca'', ''.ca''), (''uk'', ''.co.uk''), (''au'', ''.com.au''),
      (''fr'', ''.fr''), (''de'', ''.de''), (''jp'', ''.co.jp''), (''it'', ''.it''),
      (''in'', ''.in''), (''es'', ''.es'')]"

text \<open>
  \<^verbatim>\<open>regionMap\<close> is a plain object, so a key it does not own is looked up in
  \<^verbatim>\<open>Object.prototype\<close>. The properties found there are functions, and for
  \<^verbatim>\<open>__proto__\<close> the prototype object itself: all truthy. Each is given here by the text
  that a template literal prints for it, which is how the code uses the value.
\<close>

definition objectPrototype :: "string \<Rightarrow> string option" where
  "objectPrototype = map_of
     [(''constructor'', ''function Object() { [native code] }''),
      (''__defineGetter__'', ''function __defineGetter__() { [native code] }''),
      (''__defineSetter__'', ''function __defineSetter__() { [native code] }''),
      (''hasOwnProperty'', ''function hasOwnProperty() { [native code] }''),
      (''__lookupGetter__'', ''function __lookupGetter__() { [native code] }''),
      (''__lookupSetter__'', ''function __lookupSetter__() { [native code] }''),
      (''isPrototypeOf'', ''function isPrototypeOf() { [native code] }''),
      (''propertyIsEnumerable'', ''function propertyIsEnumerable() { [native code] }''),
      (''toString'', ''function toString() { [native code] }''),
      (''valueOf'', ''function valueOf() { [native code] }''),
      (''__proto__'', ''[object Object]''),
      (''toLocaleString'', ''function toLocaleString() { [native code] }'')]"

text \<open>\<^verbatim>\<open>this.regionMap[region]\<close> for a string \<^verbatim>\<open>region\<close>.\<close>

definition regionMapAt :: "string \<Rightarrow> string option" where
  "regionMapAt r = (case regionMap r of Some tld \<Rightarrow> Some tld | None \<Rightarrow> objectPrototype r)"

text \<open>\<^verbatim>\<open>if (region && !this.regionMap[region]) region = 'us'\<close>.\<close>

definition knownRegion :: "string option \<Rightarrow> string option" where
  "knownRegion region =
     (case region of
        None \<Rightarrow> None
      | Some r \<Rightarrow> if r \<noteq> [] \<and> regionMapAt r = None then Some ''us'' else Some r)"

text \<open>
  \<^verbatim>\<open>this.regionMap[region] || '.com'\<close>. A missing \<^verbatim>\<open>region\<close> is looked up under the
  key \<^verbatim>\<open>undefined\<close> or \<^verbatim>\<open>null\<close>, which no object has.
\<close>

definition tldOf :: "string option \<Rightarrow> string" where
  "tldOf region =
     (case region of
        None \<Rightarrow> ''.com''
      | Some r \<Rightarrow> (case regionMapAt r of None \<Rightarrow> ''.com'' | Some tld \<Rightarrow> tld))"

subsection \<open>Lookups\<close>

text \<open>
  Every operation returns its result together with the URLs it requested, in the order
  the requests were issued. The \<^verbatim>\<open>timeout\<close> argument only bounds how long a request
  may take; a request that exceeds it rejects, which is \<open>None\<close> of the network.
\<close>

definition asinSearch :: "network \<Rightarrow> string option \<Rightarrow> string option \<Rightarrow> payload option \<times> string list" where
  "asinSearch net asin region =
     (case asin of
        None \<Rightarrow> (None, [])
      | Some a \<Rightarrow>
          if a = [] then (None, [])
          else
            (let asin' = encodeURIComponent (toUpperCase a);
                 regionQuery = (case region of
                                  None \<Rightarrow> []
                                | Some r \<Rightarrow> if r = [] then [] else ''?region='' @ r);
                 url = ''https://api.audnex.us/books/'' @ asin' @ regionQuery
             in (case net url of
                   None \<Rightarrow> (None, [url])
                 | Some data \<Rightarrow> if \<not> truthy (p_asin data) then (None, [url]) else (Some data, [url]))))"

definition getSeriesBooks ::
  "(string \<Rightarrow> bool) \<Rightarrow> network \<Rightarrow> string option \<Rightarrow> string option \<Rightarrow> book list \<times> string list" where
  "getSeriesBooks isValidASIN net asin region =
     (case asin of
        None \<Rightarrow> ([], [])
      | Some a \<Rightarrow>
          if a = [] \<or> \<not> isValidASIN (toUpperCase a) then ([], [])
          else
            (let region' = knownRegion region;
                 asin' = toUpperCase a;
                 tld = tldOf region';
                 url = ''https://api.audible'' @ tld @ ''/1.0/catalog/products/'' @ asin'
                         @ ''/sims?similarity_type=InTheSameSeries&num_results=50''
             in (case net url of
                   None \<Rightarrow> ([], [url])
                 | Some data \<Rightarrow>
                     (case p_similar_products data of
                        None \<Rightarrow> ([], [url])
                      | Some products \<Rightarrow>
                          (let lookups = map (\<lambda>p. asinSearch net (sp_asin p) region') products;
                               booksWithDetails = map fst lookups;
                               original = asinSearch net (Some asin') region';
                               booksWithDetails' = (case fst original of
                                                      None \<Rightarrow> booksWithDetails
                                                    | Some originalBook \<Rightarrow> Some originalBook # booksWithDetails)
                           in (map cleanResult (filterBoolean booksWithDetails'),
                               url # concat (map snd lookups) @ snd original))))))"

definition getBooksBySeriesAsin ::
  "(string \<Rightarrow> bool) \<Rightarrow> network \<Rightarrow> string option \<Rightarrow> string option \<Rightarrow> book list \<times> string list" where
  "getBooksBySeriesAsin isValidASIN net seriesAsin region =
     (case seriesAsin of
        None \<Rightarrow> ([], [])
      | Some a \<Rightarrow>
          if a = [] \<or> \<not> isValidASIN (toUpperCase a) then ([], [])
          else
            (let region' = knownRegion region;
                 seriesAsin' = toUpperCase a;
                 tld = tldOf region';
                 seriesUrl = ''https://api.audible'' @ tld @ ''/1.0/catalog/products/'' @ seriesAsin'
                               @ ''?response_groups=relationships''
             in (case net seriesUrl of
                   None \<Rightarrow> ([], [seriesUrl])
                 | Some data \<Rightarrow>
                     (let rels = (case p_product data of
                                    None \<Rightarrow> []
                                  | Some p \<Rightarrow> (case pr_relationships p of None \<Rightarrow> [] | Some rs \<Rightarrow> rs));
                          childBook = find (\<lambda>r. rel_to_product r = Some ''child''
                                                \<and> rel_type r = Some ''series'') rels
                      in (case childBook of
                            None \<Rightarrow> ([], [seriesUrl])
                          | Some child \<Rightarrow>
                              if \<not> truthy (rel_asin child) then ([], [seriesUrl])
                              else (let sims = getSeriesBooks isValidASIN net (rel_asin child) region'
                                    in (fst sims, seriesUrl # snd sims)))))))"

record seriesInfo =
  si_asin :: "string option"
  si_name :: "string option"
  si_position :: string

definition extractSeriesInfo :: "payload option \<Rightarrow> seriesInfo option" where
  "extractSeriesInfo bookData =
     (case bookData of
        None \<Rightarrow> None
      | Some d \<Rightarrow>
          (case (case p_seriesPrimary d of None \<Rightarrow> None
                 | Some sp \<Rightarrow> if truthy (sr_asin sp) then Some sp else None) of
             Some sp \<Rightarrow> Some \<lparr>si_asin = sr_asin sp, si_name = sr_name sp,
                              si_position = cleanSeriesSequence (sr_name sp) (sr_position sp)\<rparr>
           | None \<Rightarrow>
               (case (case p_seriesSecondary d of None \<Rightarrow> None
                      | Some ss \<Rightarrow> if truthy (sr_asin ss) then Some ss else None) of
                  Some ss \<Rightarrow> Some \<lparr>si_asin = sr_asin ss, si_name = sr_name ss,
                                   si_position = cleanSeriesSequence (sr_name ss) (sr_position ss)\<rparr>
                | None \<Rightarrow> None)))"

text \<open>
  The default \<^verbatim>\<open>region = 'us'\<close> replaces \<^verbatim>\<open>undefined\<close> only. The callers pass a string
  or the stored column, which is \<^verbatim>\<open>null\<close> when empty, so \<open>None\<close> is passed on as it is.
\<close>

definition getSeriesInfoFromAudible ::
  "(string \<Rightarrow> bool) \<Rightarrow> network \<Rightarrow> string option \<Rightarrow> string option \<Rightarrow> seriesInfo option \<times> string list" where
  "getSeriesInfoFromAudible isValidASIN net asin region =
     (case asin of
        None \<Rightarrow> (None, [])
      | Some a \<Rightarrow>
          if a = [] \<or> \<not> isValidASIN (toUpperCase a) then (None, [])
          else
            (let tld = tldOf region;
                 url = ''https://api.audible'' @ tld @ ''/1.0/catalog/products/'' @ toUpperCase a
                         @ ''?response_groups=series,relationships''
             in (case net url of
                   None \<Rightarrow> (None, [url])
                 | Some data \<Rightarrow>
                     (let firstSeries = (case p_product data of
                                           None \<Rightarrow> None
                                         | Some p \<Rightarrow> (case pr_series p of
                                                        None \<Rightarrow> None
                                                      | Some [] \<Rightarrow> None
                                                      | Some (s # _) \<Rightarrow> if truthy (ps_asin s) then Some s else None));
                          seriesRelation = (case p_product data of
                                              None \<Rightarrow> None
                                            | Some p \<Rightarrow> (case pr_relationships p of
                                                           None \<Rightarrow> None
                                                         | Some rs \<Rightarrow> find (\<lambda>r. rel_type r = Some ''series'') rs))
                      in (case firstSeries of
                            Some s \<Rightarrow> (Some \<lparr>si_asin = ps_asin s, si_name = ps_title s,
                                             si_position = cleanSeriesSequence (ps_title s) (ps_sequence s)\<rparr>, [url])
                          | None \<Rightarrow>
                              (case seriesRelation of
                                 None \<Rightarrow> (None, [url])
                               | Some r \<Rightarrow>
                                   if truthy (rel_asin r)
                                   then (Some \<lparr>si_asin = rel_asin r, si_name = rel_title r,
                                               si_position = cleanSeriesSequence (rel_title r) (rel_sequence r)\<rparr>, [url])
                                   else (None, [url])))))))"

section \<open>The world the server runs in\<close>

type_synonym uuid = nat

datatype error =
    DatabaseError
  | ValidationError
  | ForeignKeyConstraintError
  | UniqueConstraintError

subsection \<open>Rows\<close>

record libraryItem =
  li_libraryId :: "uuid option"

record libraryBook =
  lb_asin :: "string option"
  lb_libraryItem :: "libraryItem option"

text \<open>A series with what \<^verbatim>\<open>getBooksExpandedWithLibraryItem()\<close> returns for it.\<close>

record seriesRow =
  se_name :: string
  se_books :: "libraryBook list"

record library =
  lib_provider :: "string option"

record trackedSeries =
  ts_id :: uuid
  ts_userId :: uuid
  ts_seriesId :: uuid
  ts_seriesAsin :: "string option"
  ts_autoTracked :: bool
  ts_region :: "string option"
  ts_lastChecked :: "int option"
  ts_createdAt :: int
  ts_updatedAt :: int

text \<open>A model instance: the row, and the series when the query included it.\<close>

record trackedInstance = trackedSeries +
  ts_series :: "seriesRow option"

record newRelease =
  nr_id :: uuid
  nr_trackedSeriesId :: uuid
  nr_asin :: string
  nr_title :: string
  nr_author :: "string option"
  nr_narrator :: "string option"
  nr_coverUrl :: "string option"
  nr_releaseDate :: "string option"
  nr_sequence :: "string option"
  nr_provider :: string
  nr_dismissed :: bool
  nr_discoveredAt :: int
  nr_createdAt :: int

subsection \<open>Schema\<close>

record index =
  ix_name :: string
  ix_fields :: "string list"
  ix_unique :: bool

text \<open>The tables that exist, each with its indexes.\<close>

type_synonym schema = "string \<Rightarrow> index list option"

text \<open>
  The migration \<^verbatim>\<open>up\<close>, as far as tables and indexes go: a table that exists already is
  left as it is, indexes included; a table that is missing is created with its indexes.
\<close>

definition up :: "schema \<Rightarrow> schema" where
  "up sch =
     (let sch1 = (if sch ''trackedSeries'' \<noteq> None then sch
                  else sch(''trackedSeries'' \<mapsto>
                    [\<lparr>ix_name = ''unique_tracked_series_per_user'',
                      ix_fields = [''userId'', ''seriesId''], ix_unique = True\<rparr>,
                     \<lparr>ix_name = ''tracked_series_user_id'',
                      ix_fields = [''userId''], ix_unique = False\<rparr>,
                     \<lparr>ix_name = ''tracked_series_series_id'',
                      ix_fields = [''seriesId''], ix_unique = False\<rparr>]))
      in (if sch1 ''newReleases'' \<noteq> None then sch1
          else sch1(''newReleases'' \<mapsto>
                    [\<lparr>ix_name = ''unique_release_per_tracked_series'',
                      ix_fields = [''trackedSeriesId'', ''asin''], ix_unique = True\<rparr>,
                     \<lparr>ix_name = ''new_releases_tracked_series_id'',
                      ix_fields = [''trackedSeriesId''], ix_unique = False\<rparr>,
                     \<lparr>ix_name = ''new_releases_dismissed'',
                      ix_fields = [''dismissed''], ix_unique = False\<rparr>])))"

definition hasUniqueIndex :: "schema \<Rightarrow> string \<Rightarrow> string list \<Rightarrow> bool" where
  "hasUniqueIndex sch table columns =
     (case sch table of
        None \<Rightarrow> False
      | Some ixs \<Rightarrow> list_ex (\<lambda>ix. ix_unique ix \<and> ix_fields ix = columns) ixs)"

text \<open>
  The indexes that the two models declare in \<^verbatim>\<open>init\<close>. Sequelize names an index that
  has no name after the table and the fields. \<^verbatim>\<open>TrackedSeries.init\<close> declares the unique
  index of its table; \<^verbatim>\<open>NewRelease.init\<close> declares the index on \<^verbatim>\<open>dismissed\<close> only.
\<close>

definition trackedSeriesIndexes :: "index list" where
  "trackedSeriesIndexes =
     [\<lparr>ix_name = ''unique_tracked_series_per_user'',
       ix_fields = [''userId'', ''seriesId''], ix_unique = True\<rparr>,
      \<lparr>ix_name = ''tracked_series_user_id'', ix_fields = [''userId''], ix_unique = False\<rparr>,
      \<lparr>ix_name = ''tracked_series_series_id'', ix_fields = [''seriesId''], ix_unique = False\<rparr>]"

definition newReleaseIndexes :: "index list" where
  "newReleaseIndexes =
     [\<lparr>ix_name = ''new_releases_dismissed'', ix_fields = [''dismissed''], ix_unique = False\<rparr>]"

text \<open>
  \<^verbatim>\<open>sync()\<close> of a model: a table that is missing is created with the indexes the model
  declares; to a table that exists the declared indexes are added that it does not have by
  name.
\<close>

definition syncModel :: "string \<Rightarrow> index list \<Rightarrow> schema \<Rightarrow> schema" where
  "syncModel table declared sch =
     (case sch table of
        None \<Rightarrow> sch(table \<mapsto> declared)
      | Some existing \<Rightarrow>
          sch(table \<mapsto> existing @ filter (\<lambda>ix. ix_name ix \<notin> set (map ix_name existing)) declared))"

definition sync :: "schema \<Rightarrow> schema" where
  "sync sch = syncModel ''newReleases'' newReleaseIndexes
                (syncModel ''trackedSeries'' trackedSeriesIndexes sch)"

subsection \<open>Events\<close>

datatype level = DEBUG | INFO | WARN | ERROR

text \<open>
  The log lines of \<^verbatim>\<open>NewReleaseManager\<close>, one constructor per \<^verbatim>\<open>Logger\<close> call, with the
  values the message interpolates. The \<^verbatim>\<open>Logger\<close> calls of the catalog client, the
  finder and the controller are not recorded: they write a line and do nothing else.
\<close>

datatype logLine =
    CheckAlreadyRunning
  | StartingScheduledCheck
  | FoundSeriesDue nat
  | ScheduledCheckCompleted
  | ErrorDuringScheduledCheck error
  | CheckingSeries string
  | CouldNotFindSeriesAsin string
  | NewReleaseFound "string option" string
  | ReleaseAlreadyExists "string option"
  | ErrorCreatingReleaseRecord error
  | ErrorCheckingSeries string error
  | TrackedSeriesNotFound uuid

datatype event =
    Request string
  | Log level logLine
  | Delay nat
  | Notify uuid uuid
  | Emit uuid

subsection \<open>State\<close>

text \<open>
  \<open>http\<close> answers requests. \<open>faults\<close> is the fate of the coming database statements, one
  entry per statement: \<open>True\<close> makes the statement reject with a database error; when the
  list is used up every statement succeeds. \<open>clock\<close> is \<^verbatim>\<open>new Date()\<close>, the time value
  in milliseconds of UTC. \<open>localTZA\<close> is the time zone of the server as the language
  defines it: \<open>localTZA w t True\<close> is the offset of local time from UTC, in milliseconds,
  at the instant \<open>t\<close>, and \<open>localTZA w t False\<close> the offset at the local time \<open>t\<close>.
  \<open>trace\<close> collects what the server did that can be seen from outside, oldest first.
\<close>

record world =
  http :: network
  faults :: "bool list"
  clock :: int
  localTZA :: "int \<Rightarrow> bool \<Rightarrow> int"
  nextId :: uuid
  tables :: schema
  seriesTable :: "uuid \<Rightarrow> seriesRow option"
  libraryTable :: "uuid \<Rightarrow> library option"
  trackedSeriesTable :: "trackedSeries list"
  newReleaseTable :: "newRelease list"
  isRunning :: bool
  trace :: "event list"

type_synonym 'a promise = "world \<Rightarrow> (error + 'a) \<times> world"

definition resolve :: "'a \<Rightarrow> 'a promise" where
  "resolve x = (\<lambda>w. (Inr x, w))"

definition await :: "'a promise \<Rightarrow> ('a \<Rightarrow> 'b promise) \<Rightarrow> 'b promise" where
  "await p k = (\<lambda>w. case p w of (Inl e, w') \<Rightarrow> (Inl e, w') | (Inr x, w') \<Rightarrow> k x w')"

definition tryCatch :: "'a promise \<Rightarrow> (error \<Rightarrow> 'a promise) \<Rightarrow> 'a promise" where
  "tryCatch p handler = (\<lambda>w. case p w of (Inl e, w') \<Rightarrow> handler e w' | (Inr x, w') \<Rightarrow> (Inr x, w'))"

text \<open>One database statement: it consumes its entry of \<open>faults\<close>.\<close>

definition statement :: "'a promise \<Rightarrow> 'a promise" where
  "statement run =
     (\<lambda>w. case faults w of
             [] \<Rightarrow> run w
           | failed # rest \<Rightarrow>
               if failed then (Inl DatabaseError, w\<lparr>faults := rest\<rparr>)
               else run (w\<lparr>faults := rest\<rparr>))"

text \<open>A catalog operation run in the world: its requests go to the trace.\<close>

definition request :: "(network \<Rightarrow> 'a \<times> string list) \<Rightarrow> 'a promise" where
  "request operation =
     (\<lambda>w. (Inr (fst (operation (http w))),
            w\<lparr>trace := trace w @ map Request (snd (operation (http w)))\<rparr>))"

definition logger :: "level \<Rightarrow> logLine \<Rightarrow> world \<Rightarrow> world" where
  "logger lvl line w = w\<lparr>trace := trace w @ [Log lvl line]\<rparr>"

text \<open>\<^verbatim>\<open>delay(ms)\<close>: time passes.\<close>

definition delay :: "nat \<Rightarrow> world \<Rightarrow> world" where
  "delay ms w = w\<lparr>clock := clock w + int ms, trace := trace w @ [Delay ms]\<rparr>"

section \<open>The models\<close>

subsection \<open>Series and libraries (read only)\<close>

definition seriesFindByPk :: "uuid \<Rightarrow> seriesRow option promise" where
  "seriesFindByPk seriesId = statement (\<lambda>w. (Inr (seriesTable w seriesId), w))"

definition libraryFindByPk :: "uuid \<Rightarrow> library option promise" where
  "libraryFindByPk libraryId = statement (\<lambda>w. (Inr (libraryTable w libraryId), w))"

definition getBooksExpandedWithLibraryItem :: "uuid \<Rightarrow> libraryBook list promise" where
  "getBooksExpandedWithLibraryItem seriesId =
     statement (\<lambda>w. (Inr (case seriesTable w seriesId of None \<Rightarrow> [] | Some s \<Rightarrow> se_books s), w))"

subsection \<open>\<^verbatim>\<open>TrackedSeries\<close>\<close>

definition modelInstance :: "trackedSeries \<Rightarrow> seriesRow option \<Rightarrow> trackedInstance" where
  "modelInstance row included = trackedSeries.extend row (trackedInstance.fields included)"

text \<open>\<^verbatim>\<open>findOne({ where: { userId, seriesId } })\<close>: the first row of that pair.\<close>

definition getByUserAndSeries :: "uuid \<Rightarrow> uuid \<Rightarrow> trackedInstance option promise" where
  "getByUserAndSeries userId seriesId =
     statement (\<lambda>w.
       (Inr (map_option (\<lambda>row. modelInstance row None)
               (find (\<lambda>row. ts_userId row = userId \<and> ts_seriesId row = seriesId)
                  (trackedSeriesTable w))), w))"

text \<open>\<^verbatim>\<open>findByPk(id, { include: [series] })\<close>, as \<^verbatim>\<open>manualCheck\<close> asks for it.\<close>

definition trackedSeriesFindByPk :: "uuid \<Rightarrow> trackedInstance option promise" where
  "trackedSeriesFindByPk trackedSeriesId =
     statement (\<lambda>w.
       (Inr (map_option (\<lambda>row. modelInstance row (seriesTable w (ts_seriesId row)))
               (find (\<lambda>row. ts_id row = trackedSeriesId) (trackedSeriesTable w))), w))"

text \<open>
  The \<^verbatim>\<open>where\<close> clause of \<^verbatim>\<open>getDueForCheck\<close>: \<^verbatim>\<open>lastChecked\<close> is null or before the
  threshold.
\<close>

definition isDue :: "int \<Rightarrow> trackedSeries \<Rightarrow> bool" where
  "isDue thresholdDate row =
     (case ts_lastChecked row of None \<Rightarrow> True | Some t \<Rightarrow> t < thresholdDate)"

text \<open>
  \<^verbatim>\<open>getDueForCheck\<close>: the rows of the \<^verbatim>\<open>where\<close> clause that have their series (the
  include is \<^verbatim>\<open>required\<close>, an inner join), in the order \<^verbatim>\<open>lastChecked ASC NULLS FIRST\<close>,
  cut at \<^verbatim>\<open>limit\<close>. On \<open>int option\<close> the order puts \<open>None\<close> before every \<open>Some t\<close>. Rows
  with the same \<^verbatim>\<open>lastChecked\<close> stay in table order; SQL leaves their order open.
\<close>

definition getDueForCheck :: "int \<Rightarrow> nat \<Rightarrow> trackedInstance list promise" where
  "getDueForCheck thresholdDate limit =
     statement (\<lambda>w.
       (Inr (map (\<lambda>row. modelInstance row (seriesTable w (ts_seriesId row)))
               (take limit
                  (sort_key ts_lastChecked
                     (filter (\<lambda>row. isDue thresholdDate row \<and> seriesTable w (ts_seriesId row) \<noteq> None)
                        (trackedSeriesTable w))))), w))"

record trackedSeriesData =
  td_userId :: uuid
  td_seriesId :: uuid
  td_seriesAsin :: "string option"
  td_autoTracked :: bool
  td_region :: "string option"

text \<open>
  The insert of \<^verbatim>\<open>TrackedSeries.create\<close>. It rejects when the table is missing, when
  the table has the unique index on \<^verbatim>\<open>(userId, seriesId)\<close> and holds a row of that pair
  already, and when the series does not exist (the foreign key).
\<close>

definition insertTrackedSeries :: "trackedSeriesData \<Rightarrow> trackedInstance promise" where
  "insertTrackedSeries vals w =
     (if tables w ''trackedSeries'' = None then (Inl DatabaseError, w)
      else if hasUniqueIndex (tables w) ''trackedSeries'' [''userId'', ''seriesId'']
              \<and> list_ex (\<lambda>row. ts_userId row = td_userId vals \<and> ts_seriesId row = td_seriesId vals)
                   (trackedSeriesTable w)
      then (Inl UniqueConstraintError, w)
      else if seriesTable w (td_seriesId vals) = None then (Inl ForeignKeyConstraintError, w)
      else
        (let row = \<lparr>ts_id = nextId w, ts_userId = td_userId vals, ts_seriesId = td_seriesId vals,
                    ts_seriesAsin = td_seriesAsin vals, ts_autoTracked = td_autoTracked vals,
                    ts_region = td_region vals, ts_lastChecked = None,
                    ts_createdAt = clock w, ts_updatedAt = clock w\<rparr>
         in (Inr (modelInstance row None),
             w\<lparr>nextId := Suc (nextId w), trackedSeriesTable := trackedSeriesTable w @ [row]\<rparr>)))"

definition trackedSeriesCreate :: "trackedSeriesData \<Rightarrow> trackedInstance promise" where
  "trackedSeriesCreate vals = statement (insertTrackedSeries vals)"

definition createTrackedSeries :: "trackedSeriesData \<Rightarrow> trackedInstance promise" where
  "createTrackedSeries data =
     await (getByUserAndSeries (td_userId data) (td_seriesId data)) (\<lambda>existing.
       case existing of
         Some found \<Rightarrow> resolve found
       | None \<Rightarrow>
           trackedSeriesCreate
             \<lparr>td_userId = td_userId data, td_seriesId = td_seriesId data,
              td_seriesAsin = (if truthy (td_seriesAsin data) then td_seriesAsin data else None),
              td_autoTracked = td_autoTracked data,
              td_region = (if truthy (td_region data) then td_region data else Some ''us'')\<rparr>)"

text \<open>
  \<^verbatim>\<open>updateLastChecked\<close> and \<^verbatim>\<open>updateSeriesAsin\<close> set a property of the instance and
  \<^verbatim>\<open>save()\<close> it: an update of that column (and of \<^verbatim>\<open>updatedAt\<close>) in the row with the
  instance's id. (After a save that rejected, Sequelize keeps the property marked as
  changed and writes it with the next save; the model does not follow that.)
\<close>

definition updateLastChecked :: "trackedInstance \<Rightarrow> trackedInstance promise" where
  "updateLastChecked this =
     statement (\<lambda>w.
       (Inr (this\<lparr>ts_lastChecked := Some (clock w), ts_updatedAt := clock w\<rparr>),
        w\<lparr>trackedSeriesTable :=
             map (\<lambda>row. if ts_id row = ts_id this
                         then row\<lparr>ts_lastChecked := Some (clock w), ts_updatedAt := clock w\<rparr>
                         else row)
               (trackedSeriesTable w)\<rparr>))"

definition updateSeriesAsin :: "trackedInstance \<Rightarrow> string option \<Rightarrow> trackedInstance promise" where
  "updateSeriesAsin this asin =
     statement (\<lambda>w.
       (Inr (this\<lparr>ts_seriesAsin := asin, ts_updatedAt := clock w\<rparr>),
        w\<lparr>trackedSeriesTable :=
             map (\<lambda>row. if ts_id row = ts_id this
                         then row\<lparr>ts_seriesAsin := asin, ts_updatedAt := clock w\<rparr>
                         else row)
               (trackedSeriesTable w)\<rparr>))"

subsection \<open>\<^verbatim>\<open>NewRelease\<close>\<close>

record releaseData =
  rd_trackedSeriesId :: uuid
  rd_asin :: "string option"
  rd_title :: "string option"
  rd_author :: "string option"
  rd_narrator :: "string option"
  rd_coverUrl :: "string option"
  rd_releaseDate :: "string option"
  rd_sequence :: "string option"
  rd_provider :: "string option"

text \<open>\<^verbatim>\<open>x || null\<close>.\<close>

definition orNull :: "string option \<Rightarrow> string option" where
  "orNull v = (if truthy v then v else None)"

text \<open>
  The insert of \<^verbatim>\<open>NewRelease.create\<close>. It rejects when the table is missing, when the
  table has the unique index on \<^verbatim>\<open>(trackedSeriesId, asin)\<close> and holds a row of that pair
  already, and when the tracked series does not exist (the foreign key).
\<close>

definition insertNewRelease :: "releaseData \<Rightarrow> string \<Rightarrow> string \<Rightarrow> newRelease promise" where
  "insertNewRelease data asin title w =
     (if tables w ''newReleases'' = None then (Inl DatabaseError, w)
      else if hasUniqueIndex (tables w) ''newReleases'' [''trackedSeriesId'', ''asin'']
              \<and> list_ex (\<lambda>row. nr_trackedSeriesId row = rd_trackedSeriesId data \<and> nr_asin row = asin)
                   (newReleaseTable w)
      then (Inl UniqueConstraintError, w)
      else if \<not> list_ex (\<lambda>row. ts_id row = rd_trackedSeriesId data) (trackedSeriesTable w)
      then (Inl ForeignKeyConstraintError, w)
      else
        (let row = \<lparr>nr_id = nextId w, nr_trackedSeriesId = rd_trackedSeriesId data,
                    nr_asin = asin, nr_title = title,
                    nr_author = orNull (rd_author data), nr_narrator = orNull (rd_narrator data),
                    nr_coverUrl = orNull (rd_coverUrl data),
                    nr_releaseDate = orNull (rd_releaseDate data),
                    nr_sequence = orNull (rd_sequence data),
                    nr_provider = (case rd_provider data of
                                     None \<Rightarrow> ''audible''
                                   | Some p \<Rightarrow> if p = [] then ''audible'' else p),
                    nr_dismissed = False, nr_discoveredAt = clock w, nr_createdAt = clock w\<rparr>
         in (Inr row, w\<lparr>nextId := Suc (nextId w), newReleaseTable := newReleaseTable w @ [row]\<rparr>)))"

text \<open>
  \<^verbatim>\<open>createNewRelease\<close>, that is \<^verbatim>\<open>NewRelease.create\<close>. Sequelize validates before it
  inserts: \<^verbatim>\<open>asin\<close> and \<^verbatim>\<open>title\<close> are \<^verbatim>\<open>allowNull: false\<close>.
\<close>

definition createNewRelease :: "releaseData \<Rightarrow> newRelease promise" where
  "createNewRelease data =
     (case (rd_asin data, rd_title data) of
        (Some asin, Some title) \<Rightarrow> statement (insertNewRelease data asin title)
      | _ \<Rightarrow> (\<lambda>w. (Inl ValidationError, w)))"

text \<open>\<^verbatim>\<open>findAll({ where: { trackedSeriesId }, attributes: ['asin'] })\<close>.\<close>

definition releasesOfTrackedSeries :: "uuid \<Rightarrow> newRelease list promise" where
  "releasesOfTrackedSeries trackedSeriesId =
     statement (\<lambda>w. (Inr (filter (\<lambda>row. nr_trackedSeriesId row = trackedSeriesId) (newReleaseTable w)), w))"

text \<open>
  The sort key of \<^verbatim>\<open>ORDER BY CAST(sequence AS FLOAT) ASC NULLS LAST\<close>. \<open>cast\<close> is the
  database engine's \<^verbatim>\<open>CAST(text AS FLOAT)\<close>; the cast of \<^verbatim>\<open>NULL\<close> is \<^verbatim>\<open>NULL\<close>. Pairs
  are ordered lexicographically and \<open>False < True\<close>, so the rows without a value come last.
\<close>

definition sequenceKey :: "(string \<Rightarrow> rat) \<Rightarrow> newRelease \<Rightarrow> bool \<times> rat" where
  "sequenceKey cast row =
     (case nr_sequence row of None \<Rightarrow> (True, 0) | Some s \<Rightarrow> (False, cast s))"

text \<open>
  The cast of SQLite, the engine of the server's database: \<^verbatim>\<open>CAST(text AS FLOAT)\<close> is
  the value of the longest prefix of the text that reads as a number (blanks, a sign,
  digits with an optional fraction, an optional exponent), and 0 when no prefix does.
  The value is exact here; the engine rounds it to a double.
\<close>

definition isSpace :: "char \<Rightarrow> bool" where
  "isSpace c = (c \<in> {CHR '' '', CHR 0x09, CHR 0x0A, CHR 0x0B, CHR 0x0C, CHR 0x0D})"

definition digitsValue :: "string \<Rightarrow> nat" where
  "digitsValue ds = foldl (\<lambda>n c. 10 * n + (of_char c - 48)) 0 ds"

definition sqliteCast :: "string \<Rightarrow> rat" where
  "sqliteCast s =
     (let s1 = dropWhile isSpace s;
          negative = (case s1 of [] \<Rightarrow> False | c # _ \<Rightarrow> c = CHR ''-'');
          s2 = (case s1 of [] \<Rightarrow> [] | c # cs \<Rightarrow> if c = CHR ''-'' \<or> c = CHR ''+'' then cs else s1);
          whole = takeWhile isDigit s2;
          s3 = dropWhile isDigit s2;
          fraction = (case s3 of [] \<Rightarrow> [] | c # cs \<Rightarrow> if c = CHR ''.'' then takeWhile isDigit cs else []);
          s4 = (case s3 of [] \<Rightarrow> [] | c # cs \<Rightarrow> if c = CHR ''.'' then dropWhile isDigit cs else s3);
          s5 = (case s4 of [] \<Rightarrow> [] | c # cs \<Rightarrow> if c = CHR ''e'' \<or> c = CHR ''E'' then cs else []);
          exponentNegative = (case s5 of [] \<Rightarrow> False | c # _ \<Rightarrow> c = CHR ''-'');
          s6 = (case s5 of [] \<Rightarrow> [] | c # cs \<Rightarrow> if c = CHR ''-'' \<or> c = CHR ''+'' then cs else s5);
          exponent = digitsValue (takeWhile isDigit s6);
          mantissa = of_nat (digitsValue (whole @ fraction)) / 10 ^ length fraction;
          scaled = (if exponentNegative then mantissa / 10 ^ exponent else mantissa * 10 ^ exponent)
      in if whole = [] \<and> fraction = [] then 0
         else if negative then - scaled else scaled)"

record releaseOptions =
  includeDismissed :: bool

definition getForTrackedSeries ::
  "(string \<Rightarrow> rat) \<Rightarrow> uuid \<Rightarrow> releaseOptions \<Rightarrow> newRelease list promise" where
  "getForTrackedSeries cast trackedSeriesId options =
     statement (\<lambda>w.
       (Inr (sort_key (sequenceKey cast)
               (filter (\<lambda>row. nr_trackedSeriesId row = trackedSeriesId
                              \<and> (includeDismissed options \<or> \<not> nr_dismissed row))
                  (newReleaseTable w))), w))"

section \<open>The series finder (\<^verbatim>\<open>SeriesFinder\<close>)\<close>

record seriesBookResult =
  sb_asin :: "string option"
  sb_title :: "string option"
  sb_author :: "string option"
  sb_narrator :: "string option"
  sb_coverUrl :: "string option"
  sb_releaseDate :: "string option"
  sb_sequence :: "string option"
  sb_provider :: string

definition getSeriesBooksByAsin ::
  "(string \<Rightarrow> bool) \<Rightarrow> network \<Rightarrow> string option \<Rightarrow> string option
     \<Rightarrow> seriesBookResult list \<times> string list" where
  "getSeriesBooksByAsin isValidASIN net seriesAsin region =
     (case seriesAsin of
        None \<Rightarrow> ([], [])
      | Some a \<Rightarrow>
          if a = [] \<or> \<not> isValidASIN (toUpperCase a) then ([], [])
          else
            (let books = getBooksBySeriesAsin isValidASIN net seriesAsin region
             in (map (\<lambda>book.
                        \<lparr>sb_asin = b_asin book, sb_title = b_title book, sb_author = b_author book,
                         sb_narrator = b_narrator book, sb_coverUrl = b_cover book,
                         sb_releaseDate = b_publishedYear book,
                         sb_sequence = (case b_series book of
                                          None \<Rightarrow> None
                                        | Some [] \<Rightarrow> None
                                        | Some (s # _) \<Rightarrow>
                                            if ss_sequence s = [] then None else Some (ss_sequence s)),
                         sb_provider = ''audible''\<rparr>)
                   (fst books),
                 snd books)))"

definition findSeriesAsinFromBook ::
  "(string \<Rightarrow> bool) \<Rightarrow> network \<Rightarrow> string option \<Rightarrow> string option
     \<Rightarrow> seriesInfo option \<times> string list" where
  "findSeriesAsinFromBook isValidASIN net bookAsin region =
     (case bookAsin of
        None \<Rightarrow> (None, [])
      | Some a \<Rightarrow>
          if a = [] \<or> \<not> isValidASIN (toUpperCase a) then (None, [])
          else
            (let lookup = asinSearch net bookAsin region
             in (case fst lookup of
                   None \<Rightarrow> (None, snd lookup)
                 | Some bookData \<Rightarrow>
                     (case extractSeriesInfo (Some bookData) of
                        Some info \<Rightarrow> (Some info, snd lookup)
                      | None \<Rightarrow>
                          (let direct = getSeriesInfoFromAudible isValidASIN net bookAsin region
                           in (fst direct, snd lookup @ snd direct))))))"

subsection \<open>The diff\<close>

text \<open>
  The three constants of \<^verbatim>\<open>getNewReleasesForSeries\<close>. An element of the two sets is what
  \<^verbatim>\<open>x.asin?.toUpperCase()\<close> gives: a string, or \<open>None\<close> for \<^verbatim>\<open>undefined\<close>.
\<close>

definition libraryAsins :: "libraryBook list \<Rightarrow> string option set" where
  "libraryAsins libraryBooks =
     set (filter truthy (map (\<lambda>book. map_option toUpperCase (lb_asin book)) libraryBooks))"

definition existingReleaseAsins :: "newRelease list \<Rightarrow> string option set" where
  "existingReleaseAsins releases = set (map (\<lambda>r. Some (toUpperCase (nr_asin r))) releases)"

definition newBooks ::
  "string option set \<Rightarrow> string option set \<Rightarrow> seriesBookResult list \<Rightarrow> seriesBookResult list" where
  "newBooks owned recorded externalBooks =
     filter (\<lambda>book.
               case sb_asin book of
                 None \<Rightarrow> False
               | Some a \<Rightarrow>
                   if a = [] then False
                   else (let upperAsin = toUpperCase a
                         in Some upperAsin \<notin> owned \<and> Some upperAsin \<notin> recorded))
       externalBooks"

definition getNewReleasesForSeries ::
  "(string \<Rightarrow> bool) \<Rightarrow> trackedInstance \<Rightarrow> seriesBookResult list promise" where
  "getNewReleasesForSeries isValidASIN trackedSeries =
     (if \<not> truthy (ts_seriesAsin trackedSeries) then resolve []
      else
        await (request (\<lambda>net. getSeriesBooksByAsin isValidASIN net (ts_seriesAsin trackedSeries)
                                (if truthy (ts_region trackedSeries) then ts_region trackedSeries
                                 else Some ''us'')))
          (\<lambda>externalBooks.
             if externalBooks = [] then resolve []
             else
               await (case ts_series trackedSeries of
                        Some s \<Rightarrow> resolve (Some s)
                      | None \<Rightarrow> seriesFindByPk (ts_seriesId trackedSeries))
                 (\<lambda>found.
                    case found of
                      None \<Rightarrow> resolve []
                    | Some s \<Rightarrow>
                        await (getBooksExpandedWithLibraryItem (ts_seriesId trackedSeries))
                          (\<lambda>libraryBooks.
                             await (releasesOfTrackedSeries (ts_id trackedSeries))
                               (\<lambda>releases.
                                  resolve (newBooks (libraryAsins libraryBooks)
                                             (existingReleaseAsins releases) externalBooks))))))"

subsection \<open>Resolving the series identifier\<close>

text \<open>The \<^verbatim>\<open>for\<close> loop of \<^verbatim>\<open>findSeriesAsinFromLibrary\<close>.\<close>

fun findSeriesAsinFromBooks ::
  "(string \<Rightarrow> bool) \<Rightarrow> string option \<Rightarrow> libraryBook list \<Rightarrow> string option promise" where
  "findSeriesAsinFromBooks isValidASIN region [] w = (Inr None, w)"
| "findSeriesAsinFromBooks isValidASIN region (book # rest) w =
     (case lb_asin book of
        None \<Rightarrow> findSeriesAsinFromBooks isValidASIN region rest w
      | Some a \<Rightarrow>
          if a = [] \<or> \<not> isValidASIN (toUpperCase a)
          then findSeriesAsinFromBooks isValidASIN region rest w
          else
            (case request (\<lambda>net. findSeriesAsinFromBook isValidASIN net (lb_asin book) region) w of
               (Inl e, w1) \<Rightarrow> (Inl e, w1)
             | (Inr None, w1) \<Rightarrow> findSeriesAsinFromBooks isValidASIN region rest w1
             | (Inr (Some info), w1) \<Rightarrow>
                 if truthy (si_asin info) then (Inr (si_asin info), w1)
                 else findSeriesAsinFromBooks isValidASIN region rest w1))"

definition findSeriesAsinFromLibrary ::
  "(string \<Rightarrow> bool) \<Rightarrow> uuid \<Rightarrow> string option \<Rightarrow> string option promise" where
  "findSeriesAsinFromLibrary isValidASIN seriesId region =
     await (seriesFindByPk seriesId)
       (\<lambda>found.
          case found of
            None \<Rightarrow> resolve None
          | Some s \<Rightarrow>
              await (getBooksExpandedWithLibraryItem seriesId)
                (\<lambda>books. findSeriesAsinFromBooks isValidASIN region books))"

section \<open>The scheduler (\<^verbatim>\<open>NewReleaseManager\<close>)\<close>

definition seriesNameOf :: "trackedInstance \<Rightarrow> string" where
  "seriesNameOf trackedSeries =
     (case ts_series trackedSeries of
        None \<Rightarrow> ''Unknown Series''
      | Some s \<Rightarrow> if se_name s = [] then ''Unknown Series'' else se_name s)"

definition releaseDataOf :: "trackedInstance \<Rightarrow> seriesBookResult \<Rightarrow> releaseData" where
  "releaseDataOf trackedSeries book =
     \<lparr>rd_trackedSeriesId = ts_id trackedSeries, rd_asin = sb_asin book, rd_title = sb_title book,
      rd_author = sb_author book, rd_narrator = sb_narrator book, rd_coverUrl = sb_coverUrl book,
      rd_releaseDate = sb_releaseDate book, rd_sequence = sb_sequence book,
      rd_provider = Some (sb_provider book)\<rparr>"

text \<open>
  The \<^verbatim>\<open>for\<close> loop over \<^verbatim>\<open>newBooks\<close> with its own \<^verbatim>\<open>try\<close>: a release that cannot be
  created is logged and the loop goes on.
\<close>

fun createReleases ::
  "trackedInstance \<Rightarrow> string \<Rightarrow> seriesBookResult list \<Rightarrow> newRelease list
     \<Rightarrow> newRelease list promise" where
  "createReleases trackedSeries seriesName [] createdReleases w = (Inr createdReleases, w)"
| "createReleases trackedSeries seriesName (book # rest) createdReleases w =
     (case createNewRelease (releaseDataOf trackedSeries book) w of
        (Inr release, w1) \<Rightarrow>
          createReleases trackedSeries seriesName rest (createdReleases @ [release])
            (logger INFO (NewReleaseFound (sb_title book) seriesName) w1)
      | (Inl error, w1) \<Rightarrow>
          createReleases trackedSeries seriesName rest createdReleases
            (if error = UniqueConstraintError
             then logger DEBUG (ReleaseAlreadyExists (sb_asin book)) w1
             else logger ERROR (ErrorCreatingReleaseRecord error) w1))"

definition notifyNewReleases :: "trackedInstance \<Rightarrow> newRelease list \<Rightarrow> world \<Rightarrow> world" where
  "notifyNewReleases trackedSeries releases w =
     w\<lparr>trace := trace w @ map (\<lambda>release. Notify (ts_id trackedSeries) (nr_id release)) releases\<rparr>"

definition emitNewReleasesUpdate :: "uuid \<Rightarrow> world \<Rightarrow> world" where
  "emitNewReleasesUpdate userId w = w\<lparr>trace := trace w @ [Emit userId]\<rparr>"

text \<open>
  The first step of the \<^verbatim>\<open>try\<close> block: the instance to go on with, or \<open>None\<close> for the
  early \<^verbatim>\<open>return []\<close>.
\<close>

definition resolveSeriesAsin ::
  "(string \<Rightarrow> bool) \<Rightarrow> string \<Rightarrow> trackedInstance \<Rightarrow> trackedInstance option promise" where
  "resolveSeriesAsin isValidASIN seriesName trackedSeries =
     (if \<not> truthy (ts_seriesAsin trackedSeries) then
        await (findSeriesAsinFromLibrary isValidASIN (ts_seriesId trackedSeries) (ts_region trackedSeries))
          (\<lambda>seriesAsin.
             if truthy seriesAsin
             then await (updateSeriesAsin trackedSeries seriesAsin) (\<lambda>updated. resolve (Some updated))
             else (\<lambda>w. await (updateLastChecked trackedSeries) (\<lambda>_. resolve None)
                          (logger DEBUG (CouldNotFindSeriesAsin seriesName) w)))
      else resolve (Some trackedSeries))"

definition checkSeriesForNewReleases ::
  "(string \<Rightarrow> bool) \<Rightarrow> trackedInstance \<Rightarrow> newRelease list promise" where
  "checkSeriesForNewReleases isValidASIN trackedSeries =
     (\<lambda>w0.
        tryCatch
          (await (resolveSeriesAsin isValidASIN (seriesNameOf trackedSeries) trackedSeries)
             (\<lambda>resolved.
                case resolved of
                  None \<Rightarrow> resolve []
                | Some tracked \<Rightarrow>
                    await (getNewReleasesForSeries isValidASIN tracked)
                      (\<lambda>found.
                         await (createReleases tracked (seriesNameOf trackedSeries) found [])
                           (\<lambda>createdReleases.
                              await (updateLastChecked tracked)
                                (\<lambda>_ w.
                                   (Inr createdReleases,
                                    if createdReleases \<noteq> []
                                    then emitNewReleasesUpdate (ts_userId tracked)
                                           (notifyNewReleases tracked createdReleases w)
                                    else w))))))
          (\<lambda>error w.
             await (updateLastChecked trackedSeries) (\<lambda>_. resolve [])
               (logger ERROR (ErrorCheckingSeries (seriesNameOf trackedSeries) error) w))
          (logger DEBUG (CheckingSeries (seriesNameOf trackedSeries)) w0))"

subsection \<open>Dates\<close>

text \<open>
  The time-value arithmetic of \<^verbatim>\<open>Date\<close>, as \<^verbatim>\<open>getHours\<close> and \<^verbatim>\<open>setHours\<close> use it. Both
  work on local time: \<^verbatim>\<open>setHours\<close> replaces the hour of the local time and converts
  the result back, with the offset that holds at that local time.
\<close>

definition msPerDay :: int where "msPerDay = 86400000"
definition msPerHour :: int where "msPerHour = 3600000"
definition msPerMinute :: int where "msPerMinute = 60000"
definition msPerSecond :: int where "msPerSecond = 1000"

definition Day :: "int \<Rightarrow> int" where "Day t = t div msPerDay"
definition HourFromTime :: "int \<Rightarrow> int" where "HourFromTime t = (t div msPerHour) mod 24"
definition MinFromTime :: "int \<Rightarrow> int" where "MinFromTime t = (t div msPerMinute) mod 60"
definition SecFromTime :: "int \<Rightarrow> int" where "SecFromTime t = (t div msPerSecond) mod 60"
definition msFromTime :: "int \<Rightarrow> int" where "msFromTime t = t mod msPerSecond"

definition MakeTime :: "int \<Rightarrow> int \<Rightarrow> int \<Rightarrow> int \<Rightarrow> int" where
  "MakeTime hour minute sec ms = hour * msPerHour + minute * msPerMinute + sec * msPerSecond + ms"

definition MakeDate :: "int \<Rightarrow> int \<Rightarrow> int" where
  "MakeDate day time = day * msPerDay + time"

definition LocalTime :: "world \<Rightarrow> int \<Rightarrow> int" where
  "LocalTime w t = t + localTZA w t True"

definition UTC :: "world \<Rightarrow> int \<Rightarrow> int" where
  "UTC w t = t - localTZA w t False"

definition getHours :: "world \<Rightarrow> int \<Rightarrow> int" where
  "getHours w date = HourFromTime (LocalTime w date)"

definition setHours :: "world \<Rightarrow> int \<Rightarrow> int \<Rightarrow> int" where
  "setHours w date hour =
     (let t = LocalTime w date
      in UTC w (MakeDate (Day t) (MakeTime hour (MinFromTime t) (SecFromTime t) (msFromTime t))))"

text \<open>
  \<^verbatim>\<open>const checkThreshold = new Date(); checkThreshold.setHours(checkThreshold.getHours() - 24)\<close>.
\<close>

definition checkThreshold :: "world \<Rightarrow> int" where
  "checkThreshold w = setHours w (clock w) (getHours w (clock w) - 24)"

text \<open>The \<^verbatim>\<open>for\<close> loop of the sweep: one series after the other, a pause after each.\<close>

fun checkEach :: "(string \<Rightarrow> bool) \<Rightarrow> trackedInstance list \<Rightarrow> unit promise" where
  "checkEach isValidASIN [] w = (Inr (), w)"
| "checkEach isValidASIN (trackedSeries # rest) w =
     (case checkSeriesForNewReleases isValidASIN trackedSeries w of
        (Inl e, w1) \<Rightarrow> (Inl e, w1)
      | (Inr _, w1) \<Rightarrow> checkEach isValidASIN rest (delay 2000 w1))"

text \<open>The \<^verbatim>\<open>try\<close> block of \<^verbatim>\<open>runScheduledCheck\<close>.\<close>

definition sweep :: "(string \<Rightarrow> bool) \<Rightarrow> unit promise" where
  "sweep isValidASIN =
     (\<lambda>w. await (getDueForCheck (checkThreshold w) 100)
             (\<lambda>seriesToCheck w1.
                case checkEach isValidASIN seriesToCheck
                       (logger INFO (FoundSeriesDue (length seriesToCheck)) w1) of
                  (Inl e, w2) \<Rightarrow> (Inl e, w2)
                | (Inr _, w2) \<Rightarrow> (Inr (), logger INFO ScheduledCheckCompleted w2))
             w)"

text \<open>
  \<^verbatim>\<open>runScheduledCheck\<close> never rejects: \<^verbatim>\<open>catch\<close> takes what the \<^verbatim>\<open>try\<close> block
  throws, \<^verbatim>\<open>finally\<close> runs on both ways out.
\<close>

definition runScheduledCheck :: "(string \<Rightarrow> bool) \<Rightarrow> world \<Rightarrow> world" where
  "runScheduledCheck isValidASIN w =
     (if isRunning w then logger WARN CheckAlreadyRunning w
      else
        (case sweep isValidASIN (logger INFO StartingScheduledCheck (w\<lparr>isRunning := True\<rparr>)) of
           (Inl error, w1) \<Rightarrow> (logger ERROR (ErrorDuringScheduledCheck error) w1)\<lparr>isRunning := False\<rparr>
         | (Inr _, w1) \<Rightarrow> w1\<lparr>isRunning := False\<rparr>))"

definition manualCheck :: "(string \<Rightarrow> bool) \<Rightarrow> uuid \<Rightarrow> newRelease list promise" where
  "manualCheck isValidASIN trackedSeriesId =
     await (trackedSeriesFindByPk trackedSeriesId)
       (\<lambda>found.
          case found of
            None \<Rightarrow> (\<lambda>w. (Inr [], logger WARN (TrackedSeriesNotFound trackedSeriesId) w))
          | Some trackedSeries \<Rightarrow> checkSeriesForNewReleases isValidASIN trackedSeries)"

section \<open>The controller: \<^verbatim>\<open>followSeries\<close>\<close>

datatype response =
    Status404
  | Json trackedInstance

text \<open>\<^verbatim>\<open>provider.match(/^audible\.(\w+)$/)\<close>: the captured region, if the provider matches.\<close>

definition providerRegionMatch :: "string \<Rightarrow> string option" where
  "providerRegionMatch p =
     (if take 8 p = ''audible.'' \<and> drop 8 p \<noteq> [] \<and> list_all isWordChar (drop 8 p)
      then Some (drop 8 p) else None)"

text \<open>The region to use: the request's, or \<^verbatim>\<open>'us'\<close>, unless the library of the first book
  names an Audible region.\<close>

definition followRegion :: "string option \<Rightarrow> libraryBook list \<Rightarrow> string option promise" where
  "followRegion bodyRegion libraryBooks =
     (let region = (if truthy bodyRegion then bodyRegion else Some ''us'')
      in (case libraryBooks of
            [] \<Rightarrow> resolve region
          | first # _ \<Rightarrow>
              (case (case lb_libraryItem first of None \<Rightarrow> None | Some item \<Rightarrow> li_libraryId item) of
                 None \<Rightarrow> resolve region
               | Some libraryId \<Rightarrow>
                     await (libraryFindByPk libraryId)
                       (\<lambda>found.
                          case found of
                            None \<Rightarrow> resolve region
                          | Some lib \<Rightarrow>
                              (case lib_provider lib of
                                 None \<Rightarrow> resolve region
                               | Some p \<Rightarrow>
                                   (case providerRegionMatch p of
                                      None \<Rightarrow> resolve region
                                    | Some r \<Rightarrow> resolve (Some r)))))))"

text \<open>The \<^verbatim>\<open>for\<close> loop of \<^verbatim>\<open>followSeries\<close>: the series identifier of the first book that
  yields one.\<close>

fun followSeriesAsin ::
  "(string \<Rightarrow> bool) \<Rightarrow> string option \<Rightarrow> libraryBook list \<Rightarrow> string option promise" where
  "followSeriesAsin isValidASIN region [] w = (Inr None, w)"
| "followSeriesAsin isValidASIN region (book # rest) w =
     (if \<not> truthy (lb_asin book) then followSeriesAsin isValidASIN region rest w
      else
        (case request (\<lambda>net. findSeriesAsinFromBook isValidASIN net (lb_asin book) region) w of
           (Inl e, w1) \<Rightarrow> (Inl e, w1)
         | (Inr None, w1) \<Rightarrow> followSeriesAsin isValidASIN region rest w1
         | (Inr (Some info), w1) \<Rightarrow>
             if truthy (si_asin info) then (Inr (si_asin info), w1)
             else followSeriesAsin isValidASIN region rest w1))"

text \<open>
  \<^verbatim>\<open>followSeries\<close> for the user \<open>userId\<close>, the series \<open>seriesId\<close> of the path and the
  \<^verbatim>\<open>region\<close> of the body. The result is the response and, when the handler started a
  \<^verbatim>\<open>manualCheck\<close> without awaiting it, the tracked series that check is for; the check
  itself runs after the handler. A rejection is an error of the request.
\<close>

definition followSeries ::
  "(string \<Rightarrow> bool) \<Rightarrow> uuid \<Rightarrow> uuid \<Rightarrow> string option \<Rightarrow> (response \<times> uuid option) promise" where
  "followSeries isValidASIN userId seriesId bodyRegion =
     await (seriesFindByPk seriesId)
       (\<lambda>found.
          case found of
            None \<Rightarrow> resolve (Status404, None)
          | Some s \<Rightarrow>
              await (getByUserAndSeries userId seriesId)
                (\<lambda>existing.
                   case existing of
                     Some tracked \<Rightarrow> resolve (Json tracked, None)
                   | None \<Rightarrow>
                       await (getBooksExpandedWithLibraryItem seriesId)
                         (\<lambda>libraryBooks.
                            await (followRegion bodyRegion libraryBooks)
                              (\<lambda>region.
                                 await (followSeriesAsin isValidASIN region libraryBooks)
                                   (\<lambda>seriesAsin.
                                      await (createTrackedSeries
                                               \<lparr>td_userId = userId, td_seriesId = seriesId,
                                                td_seriesAsin = seriesAsin, td_autoTracked = False,
                                                td_region = region\<rparr>)
                                        (\<lambda>tracked.
                                           resolve (Json tracked,
                                                    if truthy seriesAsin then Some (ts_id tracked)
                                                    else None)))))))"

section \<open>Definitions used to state the properties\<close>

text \<open>
  Modelled from the spec: \<^verbatim>\<open>isValidASIN\<close> of \<^verbatim>\<open>server/utils/index\<close> is imported by the
  catalog client and the finder and is not among the sources, so the functions above take
  it as a parameter. The specification describes it as the provider's fixed-format
  identifier pattern, of fixed length and alphanumeric, applied to the upper-cased
  identifier; the length of an ASIN is 10. It is used below for concrete inputs only.
\<close>

definition validASIN :: "string \<Rightarrow> bool" where
  "validASIN s =
     (length s = 10 \<and> list_all (\<lambda>c. c \<in> set ''ABCDEFGHIJKLMNOPQRSTUVWXYZ0123456789'') s)"

text \<open>The three URLs of the catalog client, for an upper-cased identifier.\<close>

definition lookupUrl :: "string \<Rightarrow> string option \<Rightarrow> string" where
  "lookupUrl asin region =
     ''https://api.audnex.us/books/'' @ encodeURIComponent asin
       @ (case region of None \<Rightarrow> [] | Some r \<Rightarrow> if r = [] then [] else ''?region='' @ r)"

definition relationshipsUrl :: "string \<Rightarrow> string option \<Rightarrow> string" where
  "relationshipsUrl seriesAsin region =
     ''https://api.audible'' @ tldOf region @ ''/1.0/catalog/products/'' @ seriesAsin
       @ ''?response_groups=relationships''"

definition simsUrl :: "string \<Rightarrow> string option \<Rightarrow> string" where
  "simsUrl asin region =
     ''https://api.audible'' @ tldOf region @ ''/1.0/catalog/products/'' @ asin
       @ ''/sims?similarity_type=InTheSameSeries&num_results=50''"

text \<open>
  The member book the relationship lookup discovers: the identifier of the first
  relationship marked child of series in the answer for the series, if the request is
  answered, there is such a relationship and it has an identifier.
\<close>

definition discoveredBook :: "network \<Rightarrow> string \<Rightarrow> string option \<Rightarrow> string option" where
  "discoveredBook net seriesAsin region =
     (case net (relationshipsUrl seriesAsin region) of
        None \<Rightarrow> None
      | Some data \<Rightarrow>
          (case p_product data of
             None \<Rightarrow> None
           | Some p \<Rightarrow>
               (case pr_relationships p of
                  None \<Rightarrow> None
                | Some rs \<Rightarrow>
                    (case find (\<lambda>r. rel_to_product r = Some ''child'' \<and> rel_type r = Some ''series'') rs of
                       None \<Rightarrow> None
                     | Some child \<Rightarrow> if truthy (rel_asin child) then rel_asin child else None))))"

text \<open>The similar products the similarity lookup reports for a book, if it is answered
  and the answer has the list.\<close>

definition similarProducts :: "network \<Rightarrow> string \<Rightarrow> string option \<Rightarrow> similarProduct list option" where
  "similarProducts net asin region =
     (case net (simsUrl asin region) of None \<Rightarrow> None | Some data \<Rightarrow> p_similar_products data)"

text \<open>The identifiers the library holds and the identifiers already recorded, upper-cased.\<close>

definition ownedIds :: "libraryBook list \<Rightarrow> string set" where
  "ownedIds libraryBooks =
     set (concat (map (\<lambda>book. case lb_asin book of None \<Rightarrow> [] | Some a \<Rightarrow> [toUpperCase a]) libraryBooks))"

definition recordedIds :: "newRelease list \<Rightarrow> string set" where
  "recordedIds releases = set (map (\<lambda>r. toUpperCase (nr_asin r)) releases)"

text \<open>
  The criterion of the diff: the identifier of the entry, in upper case, is neither among
  the owned identifiers nor among the recorded ones.
\<close>

definition inNeitherSet :: "libraryBook list \<Rightarrow> newRelease list \<Rightarrow> seriesBookResult \<Rightarrow> bool" where
  "inNeitherSet libraryBooks releases entry =
     (map_option toUpperCase (sb_asin entry) \<notin> Some ` ownedIds libraryBooks
      \<and> map_option toUpperCase (sb_asin entry) \<notin> Some ` recordedIds releases)"

text \<open>The same for an entry that has an identifier, which the filter asks for first.\<close>

definition isNewEntry :: "libraryBook list \<Rightarrow> newRelease list \<Rightarrow> seriesBookResult \<Rightarrow> bool" where
  "isNewEntry libraryBooks releases entry =
     (case sb_asin entry of
        None \<Rightarrow> False
      | Some a \<Rightarrow> a \<noteq> [] \<and> toUpperCase a \<notin> ownedIds libraryBooks
                    \<and> toUpperCase a \<notin> recordedIds releases)"

text \<open>What the three reads of \<^verbatim>\<open>getNewReleasesForSeries\<close> see in a world.\<close>

definition externalBooksOf ::
  "(string \<Rightarrow> bool) \<Rightarrow> world \<Rightarrow> trackedInstance \<Rightarrow> seriesBookResult list" where
  "externalBooksOf isValidASIN w trackedSeries =
     fst (getSeriesBooksByAsin isValidASIN (http w) (ts_seriesAsin trackedSeries)
            (if truthy (ts_region trackedSeries) then ts_region trackedSeries else Some ''us''))"

definition libraryBooksOf :: "world \<Rightarrow> uuid \<Rightarrow> libraryBook list" where
  "libraryBooksOf w seriesId = (case seriesTable w seriesId of None \<Rightarrow> [] | Some s \<Rightarrow> se_books s)"

definition releasesOf :: "world \<Rightarrow> uuid \<Rightarrow> newRelease list" where
  "releasesOf w trackedSeriesId =
     filter (\<lambda>row. nr_trackedSeriesId row = trackedSeriesId) (newReleaseTable w)"

subsection \<open>Reasoning about operations\<close>

text \<open>\<open>returns Q p\<close>: what \<open>p\<close> resolves to satisfies \<open>Q\<close>.\<close>

definition returns :: "('a \<Rightarrow> bool) \<Rightarrow> 'a promise \<Rightarrow> bool" where
  "returns Q p = (\<forall>w x w'. p w = (Inr x, w') \<longrightarrow> Q x)"

text \<open>\<open>keeps f p\<close>: the operation \<open>p\<close> leaves the part \<open>f\<close> of the world as it is.\<close>

definition keeps :: "(world \<Rightarrow> 'x) \<Rightarrow> 'a promise \<Rightarrow> bool" where
  "keeps f p = (\<forall>w. f (snd (p w)) = f w)"

text \<open>The identity of a tracked series: its id, its user and its series.\<close>

definition trackedIdentity :: "trackedSeries \<Rightarrow> uuid \<times> uuid \<times> uuid" where
  "trackedIdentity row = (ts_id row, ts_userId row, ts_seriesId row)"

text \<open>
  \<open>quiet f\<close>: the part \<open>f\<close> of the world does not change with the fault schedule, the
  trace, the clock or the id supply. \<open>identityOnly f\<close>: of the tracked series it sees
  their identities at most. \<open>releaseFree f\<close>: it does not change with the table of releases.
\<close>

definition quiet :: "(world \<Rightarrow> 'x) \<Rightarrow> bool" where
  "quiet f =
     (\<forall>w. (\<forall>x. f (w\<lparr>faults := x\<rparr>) = f w) \<and> (\<forall>x. f (w\<lparr>trace := x\<rparr>) = f w)
          \<and> (\<forall>x. f (w\<lparr>clock := x\<rparr>) = f w) \<and> (\<forall>x. f (w\<lparr>nextId := x\<rparr>) = f w))"

definition identityOnly :: "(world \<Rightarrow> 'x) \<Rightarrow> bool" where
  "identityOnly f =
     (\<forall>w rows. map trackedIdentity rows = map trackedIdentity (trackedSeriesTable w)
                \<longrightarrow> f (w\<lparr>trackedSeriesTable := rows\<rparr>) = f w)"

definition releaseFree :: "(world \<Rightarrow> 'x) \<Rightarrow> bool" where
  "releaseFree f = (\<forall>w rows. f (w\<lparr>newReleaseTable := rows\<rparr>) = f w)"

text \<open>The table of releases with the schema it lives in.\<close>

definition releaseStore :: "world \<Rightarrow> newRelease list \<times> schema" where
  "releaseStore w = (newReleaseTable w, tables w)"

text \<open>\<open>maintains J p\<close>: the operation \<open>p\<close> maintains the property \<open>J\<close> of the release store.\<close>

definition maintains :: "(newRelease list \<times> schema \<Rightarrow> bool) \<Rightarrow> 'a promise \<Rightarrow> bool" where
  "maintains J p = (\<forall>w. J (releaseStore w) \<longrightarrow> J (releaseStore (snd (p w))))"

subsection \<open>Release rows\<close>

text \<open>The pair the unique index of the migration is on.\<close>

definition releaseKey :: "newRelease \<Rightarrow> uuid \<times> string" where
  "releaseKey row = (nr_trackedSeriesId row, nr_asin row)"

definition releaseIndex :: "schema \<Rightarrow> bool" where
  "releaseIndex sch = hasUniqueIndex sch ''newReleases'' [''trackedSeriesId'', ''asin'']"

text \<open>The index is there and no two rows have the same pair.\<close>

definition uniqueReleases :: "newRelease list \<times> schema \<Rightarrow> bool" where
  "uniqueReleases store = (releaseIndex (snd store) \<and> distinct (map releaseKey (fst store)))"

text \<open>
  Any number of attempts to create a release, by whatever checks are running, in the order
  in which their inserts reach the database.
\<close>

fun attempts :: "releaseData list \<Rightarrow> world \<Rightarrow> world" where
  "attempts [] w = w"
| "attempts (data # rest) w = attempts rest (snd (createNewRelease data w))"

subsection \<open>Orders of the listings\<close>

text \<open>
  Due by the 24-hour staleness threshold: never checked, or checked more than 24 hours
  before now.
\<close>

definition stale :: "world \<Rightarrow> trackedSeries \<Rightarrow> bool" where
  "stale w row =
     (case ts_lastChecked row of None \<Rightarrow> True | Some t \<Rightarrow> t < clock w - 24 * 60 * 60 * 1000)"

text \<open>
  Oldest check first, a series that was never checked counting as the oldest: \<open>a\<close> may
  stand before \<open>b\<close>.
\<close>

definition checkedNoLater :: "int option \<Rightarrow> int option \<Rightarrow> bool" where
  "checkedNoLater a b =
     (case a of None \<Rightarrow> True | Some x \<Rightarrow> (case b of None \<Rightarrow> False | Some y \<Rightarrow> x \<le> y))"

text \<open>
  Ascending by the number the cast gives the sequence marker, a row without a marker
  after every row with one: \<open>a\<close> may stand before \<open>b\<close>.
\<close>

definition markerNoLater :: "(string \<Rightarrow> rat) \<Rightarrow> string option \<Rightarrow> string option \<Rightarrow> bool" where
  "markerNoLater cast a b =
     (case b of None \<Rightarrow> True | Some y \<Rightarrow> (case a of None \<Rightarrow> False | Some x \<Rightarrow> cast x \<le> cast y))"

text \<open>The tracked series of a user and a series, as \<^verbatim>\<open>getByUserAndSeries\<close> finds it.\<close>

definition following :: "uuid \<Rightarrow> uuid \<Rightarrow> world \<Rightarrow> trackedInstance option" where
  "following userId seriesId w =
     map_option (\<lambda>row. modelInstance row None)
       (find (\<lambda>row. ts_userId row = userId \<and> ts_seriesId row = seriesId) (trackedSeriesTable w))"

section \<open>Example inputs\<close>

definition emptyPayload :: payload where
  "emptyPayload =
     \<lparr>p_asin = None, p_title = None, p_authors = None, p_narrators = None, p_releaseDate = None,
      p_image = None, p_seriesPrimary = None, p_seriesSecondary = None,
      p_similar_products = None, p_product = None\<rparr>"

definition bookPayload :: "string \<Rightarrow> string \<Rightarrow> string \<Rightarrow> payload" where
  "bookPayload asin title position =
     emptyPayload\<lparr>p_asin := Some asin, p_title := Some title,
                   p_seriesPrimary := Some \<lparr>sr_asin = Some ''B0SERIES01'', sr_name = Some ''Saga'',
                                             sr_position = Some position\<rparr>\<rparr>"

text \<open>
  A catalog that knows the series \<^verbatim>\<open>B0SERIES01\<close>: its first child-of-series relationship is
  the book \<^verbatim>\<open>B0BOOK0001\<close>, whose similarity set names \<^verbatim>\<open>B0BOOK0002\<close> and
  \<^verbatim>\<open>B0BOOK0003\<close>. The lookups of the first two books are answered; every other request
  fails, the lookup of \<^verbatim>\<open>B0BOOK0003\<close> among them.
\<close>

definition exampleNetwork :: network where
  "exampleNetwork url =
     (if url = ''https://api.audible.com/1.0/catalog/products/B0SERIES01?response_groups=relationships''
      then Some (emptyPayload\<lparr>p_product := Some
             \<lparr>pr_series = None,
              pr_relationships = Some
                [\<lparr>rel_asin = Some ''B0PARENT01'', rel_title = None, rel_sequence = None,
                  rel_to_product = Some ''parent'', rel_type = Some ''series''\<rparr>,
                 \<lparr>rel_asin = Some ''B0BOOK0001'', rel_title = None, rel_sequence = Some ''1'',
                  rel_to_product = Some ''child'', rel_type = Some ''series''\<rparr>]\<rparr>\<rparr>)
      else if url = ''https://api.audible.com/1.0/catalog/products/B0BOOK0001/sims?similarity_type=InTheSameSeries&num_results=50''
      then Some (emptyPayload\<lparr>p_similar_products := Some
             [\<lparr>sp_asin = Some ''B0BOOK0002''\<rparr>, \<lparr>sp_asin = Some ''B0BOOK0003''\<rparr>]\<rparr>)
      else if url = ''https://api.audnex.us/books/B0BOOK0001?region=us''
      then Some (bookPayload ''B0BOOK0001'' ''One'' ''1'')
      else if url = ''https://api.audnex.us/books/B0BOOK0002?region=us''
      then Some (bookPayload ''B0BOOK0002'' ''Two'' ''Book 2'')
      else None)"

definition exampleBook :: "string \<Rightarrow> string \<Rightarrow> string \<Rightarrow> book" where
  "exampleBook asin title position =
     \<lparr>b_title = Some title, b_author = None, b_narrator = None, b_publishedYear = None,
      b_cover = None, b_asin = Some asin,
      b_series = Some [\<lparr>ss_series = Some ''Saga'', ss_sequence = position\<rparr>]\<rparr>"

definition exampleEntry :: "string \<Rightarrow> string \<Rightarrow> seriesBookResult" where
  "exampleEntry asin title =
     \<lparr>sb_asin = Some asin, sb_title = Some title, sb_author = None, sb_narrator = None,
      sb_coverUrl = None, sb_releaseDate = None, sb_sequence = None, sb_provider = ''audible''\<rparr>"

definition exampleLibraryBook :: "string \<Rightarrow> libraryBook" where
  "exampleLibraryBook asin = \<lparr>lb_asin = Some asin, lb_libraryItem = None\<rparr>"

definition deadNetwork :: network where
  "deadNetwork url = None"

definition exampleTracked :: trackedSeries where
  "exampleTracked =
     \<lparr>ts_id = 1, ts_userId = 5, ts_seriesId = 7, ts_seriesAsin = Some ''b0series01'',
      ts_autoTracked = False, ts_region = Some ''us'', ts_lastChecked = None,
      ts_createdAt = 0, ts_updatedAt = 0\<rparr>"

definition exampleSeries :: seriesRow where
  "exampleSeries = \<lparr>se_name = ''Saga'', se_books = [exampleLibraryBook ''b0book0001'']\<rparr>"

text \<open>
  The time zone of a server in Berlin in 2023: one hour ahead of UTC, and two hours ahead
  from 26 March, 01:00 UTC, when the clocks go forward from 02:00 to 03:00, until
  29 October, 01:00 UTC, when they go back from 03:00 to 02:00. A local time that the clocks
  skip or show twice is taken at the offset before the change.
\<close>

definition exampleZone :: "int \<Rightarrow> bool \<Rightarrow> int" where
  "exampleZone t isUTC =
     (if isUTC
      then (if t < 1679792400000 then 3600000 else if t < 1698541200000 then 7200000 else 3600000)
      else (if t < 1679799600000 then 3600000 else if t < 1698548400000 then 7200000 else 3600000))"

text \<open>A database without tables.\<close>

definition noTables :: schema where
  "noTables table = None"

text \<open>
  A world with the example catalog, the schema of the migration, the series 7 with one
  book in the library, and user 5 following it, on 14 November 2023, 22:13:20 UTC.
\<close>

definition exampleWorld :: world where
  "exampleWorld =
     \<lparr>http = exampleNetwork, faults = [], clock = 1700000000000, localTZA = exampleZone,
      nextId = 100, tables = up noTables,
      seriesTable = (\<lambda>i. if i = 7 then Some exampleSeries else None),
      libraryTable = (\<lambda>i. None),
      trackedSeriesTable = [exampleTracked],
      newReleaseTable = [],
      isRunning = False,
      trace = []\<rparr>"

definition exampleRelease :: "uuid \<Rightarrow> string \<Rightarrow> string option \<Rightarrow> newRelease" where
  "exampleRelease i asin marker =
     \<lparr>nr_id = i, nr_trackedSeriesId = 1, nr_asin = asin, nr_title = ''Two'',
      nr_author = None, nr_narrator = None, nr_coverUrl = None, nr_releaseDate = None,
      nr_sequence = marker, nr_provider = ''audible'', nr_dismissed = False,
      nr_discoveredAt = 1700000000000, nr_createdAt = 1700000000000\<rparr>"

text \<open>The example world with one release recorded for the tracked series.\<close>

definition exampleWorldWithRelease :: world where
  "exampleWorldWithRelease =
     exampleWorld\<lparr>newReleaseTable := [exampleRelease 50 ''B0BOOK0002'' (Some ''2'')]\<rparr>"

definition exampleRow :: "uuid \<Rightarrow> int option \<Rightarrow> trackedSeries" where
  "exampleRow i checked = exampleTracked\<lparr>ts_id := i, ts_lastChecked := checked\<rparr>"

text \<open>
  The example world at 1700000000000 ms with three tracked series: one checked 48 hours
  ago, one never checked, one checked 12 hours ago.
\<close>

definition exampleSchedule :: world where
  "exampleSchedule =
     exampleWorld\<lparr>trackedSeriesTable :=
       [exampleRow 1 (Some 1699827200000), exampleRow 2 None, exampleRow 3 (Some 1699956800000)]\<rparr>"

text \<open>The example world with three releases recorded: the markers are \<^verbatim>\<open>1\<close>,
  \<^verbatim>\<open>Prequel\<close> and none.\<close>

definition exampleShelf :: world where
  "exampleShelf =
     exampleWorld\<lparr>newReleaseTable :=
       [exampleRelease 50 ''B0BOOK0002'' (Some ''1''),
        exampleRelease 51 ''B0BOOK0009'' None,
        exampleRelease 52 ''B0BOOK0000'' (Some ''Prequel'')]\<rparr>"

text \<open>The tracked series that user 6 gets by following series 7 in the example world, and
  the world after that call.\<close>

definition exampleFollowed :: trackedSeries where
  "exampleFollowed =
     \<lparr>ts_id = 100, ts_userId = 6, ts_seriesId = 7, ts_seriesAsin = Some ''B0SERIES01'',
      ts_autoTracked = False, ts_region = Some ''us'', ts_lastChecked = None,
      ts_createdAt = 1700000000000, ts_updatedAt = 1700000000000\<rparr>"

definition exampleAfterFollow :: world where
  "exampleAfterFollow =
     exampleWorld\<lparr>nextId := 101, trackedSeriesTable := [exampleTracked, exampleFollowed],
                    trace := [Request ''https://api.audnex.us/books/B0BOOK0001?region=us'']\<rparr>"

text \<open>
  The example world on 29 October 2023, 12:00 UTC, eleven hours after the clocks went
  back, with one tracked series, checked 24 hours and 30 minutes earlier; and on
  26 March 2023, 12:00 UTC, eleven hours after the clocks went forward, with one tracked
  series, checked 23 hours and 30 minutes earlier.
\<close>

definition exampleFallBack :: world where
  "exampleFallBack =
     exampleWorld\<lparr>clock := 1698580800000,
                    trackedSeriesTable := [exampleRow 1 (Some 1698492600000)]\<rparr>"

definition exampleSpringForward :: world where
  "exampleSpringForward =
     exampleWorld\<lparr>clock := 1679832000000,
                    trackedSeriesTable := [exampleRow 1 (Some 1679747400000)]\<rparr>"

text \<open>
  The example world with one release recorded, in a database whose tables were created
  from the models before the migration ran.
\<close>

definition exampleUnindexed :: world where
  "exampleUnindexed = exampleWorldWithRelease\<lparr>tables := up (sync noTables)\<rparr>"

text \<open>The example catalog with a similarity set that lists \<^verbatim>\<open>B0BOOK0002\<close> twice.\<close>

definition exampleNetworkTwice :: network where
  "exampleNetworkTwice url =
     (if url = ''https://api.audible.com/1.0/catalog/products/B0BOOK0001/sims?similarity_type=InTheSameSeries&num_results=50''
      then Some (emptyPayload\<lparr>p_similar_products := Some
             [\<lparr>sp_asin = Some ''B0BOOK0002''\<rparr>, \<lparr>sp_asin = Some ''B0BOOK0002''\<rparr>]\<rparr>)
      else exampleNetwork url)"

text \<open>The example world with that catalog, in the database created from the models.\<close>

definition exampleUnindexedTwice :: world where
  "exampleUnindexedTwice = exampleWorld\<lparr>http := exampleNetworkTwice, tables := up (sync noTables)\<rparr>"

chapter \<open>Properties\<close>

section \<open>Basic facts\<close>

lemma truthy_simps [simp]:
  "truthy None = False" "truthy (Some s) = (s \<noteq> [])"
  by (simp_all add: truthy_def)

lemma upperChar_idem [simp]: "upperChar (upperChar c) = upperChar c"
  by (simp add: upperChar_def)

lemma toUpperCase_idem [simp]: "toUpperCase (toUpperCase s) = toUpperCase s"
  by (simp add: toUpperCase_def)

lemma toUpperCase_Nil [simp]: "toUpperCase s = [] \<longleftrightarrow> s = []"
  by (simp add: toUpperCase_def)

lemma toUpperCase_Nil2 [simp]: "[] = toUpperCase s \<longleftrightarrow> s = []"
  by (simp add: toUpperCase_def)

lemma knownRegion_idem [simp]: "knownRegion (knownRegion region) = knownRegion region"
  by (simp add: knownRegion_def regionMapAt_def regionMap_def split: option.splits)

lemma filterBoolean_Cons:
  "filterBoolean (x # xs) = (case x of None \<Rightarrow> filterBoolean xs | Some v \<Rightarrow> v # filterBoolean xs)"
  by (simp add: filterBoolean_def split: option.splits)

lemma filterBoolean_Nil [simp]: "filterBoolean [] = []"
  by (simp add: filterBoolean_def)

lemma truncate_modelInstance [simp]: "trackedSeries.truncate (modelInstance row included) = row"
  by (simp add: modelInstance_def trackedSeries.defs trackedInstance.defs)

lemma modelInstance_fields [simp]:
  "ts_id (modelInstance row included) = ts_id row"
  "ts_userId (modelInstance row included) = ts_userId row"
  "ts_seriesId (modelInstance row included) = ts_seriesId row"
  "ts_seriesAsin (modelInstance row included) = ts_seriesAsin row"
  "ts_region (modelInstance row included) = ts_region row"
  "ts_lastChecked (modelInstance row included) = ts_lastChecked row"
  "ts_series (modelInstance row included) = included"
  by (simp_all add: modelInstance_def trackedSeries.defs trackedInstance.defs)

lemmas example_eval =
  exampleNetwork_def validASIN_def toUpperCase_def upperChar_def knownRegion_def tldOf_def
  regionMapAt_def regionMap_def encodeURIComponent_def uriUnreserved_def cleanResult_def filterBoolean_def
  bookPayload_def emptyPayload_def exampleBook_def cleanSeriesSequence_def positionOrEmpty_def
  isDigit_def Let_def lookupUrl_def simsUrl_def relationshipsUrl_def

lemma noTables_apply [simp]: "noTables table = None"
  by (simp add: noTables_def)

text \<open>A time value is the sum of its fields.\<close>

lemma fields_sum:
  fixes t a b c d :: int
  assumes "0 \<le> b" "0 \<le> c" "0 \<le> d" and ab: "ab = a * b" and abc: "abc = ab * c"
    and abcd: "abcd = abc * d"
  shows "(t div abcd) * abcd + (t div abc mod d) * abc + (t div ab mod c) * ab
         + (t div a mod b) * a + t mod a = t"
proof -
  define q1 where "q1 = t div a"
  define q2 where "q2 = q1 div b"
  define q3 where "q3 = q2 div c"
  define q4 where "q4 = q3 div d"
  define r1 where "r1 = t mod a"
  define r2 where "r2 = q1 mod b"
  define r3 where "r3 = q2 mod c"
  define r4 where "r4 = q3 mod d"
  have d2: "t div ab = q2" using assms(1) by (simp add: ab zdiv_zmult2_eq q1_def q2_def)
  have d3: "t div abc = q3" using assms(2) d2 by (simp add: abc zdiv_zmult2_eq q3_def)
  have d4: "t div abcd = q4" using assms(3) d3 by (simp add: abcd zdiv_zmult2_eq q4_def)
  have e1: "t = q1 * a + r1" by (simp add: q1_def r1_def)
  have e2: "q1 = q2 * b + r2" by (simp add: q2_def r2_def)
  have e3: "q2 = q3 * c + r3" by (simp add: q3_def r3_def)
  have e4: "q3 = q4 * d + r4" by (simp add: q4_def r4_def)
  have "q4 * (a * b * c * d) + r4 * (a * b * c) + r3 * (a * b) + r2 * a + r1
      = (((q4 * d + r4) * c + r3) * b + r2) * a + r1"
    by (simp add: algebra_simps)
  also have "\<dots> = t" using e1 e2 e3 e4 by simp
  finally have "q4 * abcd + r4 * abc + r3 * ab + r2 * a + r1 = t"
    by (simp only: ab abc abcd)
  then show ?thesis
    by (simp only: d2 d3 d4 r1_def r2_def r3_def r4_def q1_def [symmetric])
qed

lemma time_fields:
  "MakeDate (Day t) (MakeTime (HourFromTime t) (MinFromTime t) (SecFromTime t) (msFromTime t)) = t"
proof -
  have "(t div 86400000) * 86400000 + (t div 3600000 mod 24) * 3600000
         + (t div 60000 mod 60) * 60000 + (t div 1000 mod 60) * 1000 + t mod 1000 = t"
    by (rule fields_sum [where b = 60 and c = 60 and d = 24]) simp_all
  then show ?thesis
    unfolding MakeDate_def MakeTime_def Day_def HourFromTime_def MinFromTime_def
      SecFromTime_def msFromTime_def msPerDay_def msPerHour_def msPerMinute_def msPerSecond_def
    by (simp only: add.assoc)
qed

text \<open>
  \<^verbatim>\<open>setHours(getHours() - 24)\<close> is the instant at which the local clock showed, a day
  earlier, what it shows now.
\<close>

lemma checkThreshold_local:
  "checkThreshold w = UTC w (LocalTime w (clock w) - 24 * msPerHour)"
proof -
  let ?t = "LocalTime w (clock w)"
  have "MakeDate (Day ?t) (MakeTime (HourFromTime ?t - 24) (MinFromTime ?t) (SecFromTime ?t) (msFromTime ?t))
      = MakeDate (Day ?t) (MakeTime (HourFromTime ?t) (MinFromTime ?t) (SecFromTime ?t) (msFromTime ?t))
        - 24 * msPerHour"
    by (simp add: MakeDate_def MakeTime_def algebra_simps)
  then show ?thesis
    by (simp only: checkThreshold_def setHours_def getHours_def Let_def time_fields)
qed

text \<open>Where the offset a day ago is the offset now, that is 24 hours before now.\<close>

lemma checkThreshold_steady:
  assumes "localTZA w (clock w + localTZA w (clock w) True - 86400000) False = localTZA w (clock w) True"
  shows "checkThreshold w = clock w - 86400000"
  using assms by (simp add: checkThreshold_local UTC_def LocalTime_def msPerHour_def)

section \<open>Sequence cleaning\<close>

lemma not_digit_dot [simp]: "\<not> isDigit CHR ''.''"
  by (simp add: isDigit_def)

lemma list_all_takeWhile: "list_all P (takeWhile P xs)"
  by (induction xs) auto

lemma dropWhile_takeWhile_nil: "dropWhile P (takeWhile P xs) = []"
  by (induction xs) auto

lemma dropWhile_append_all: "list_all P xs \<Longrightarrow> dropWhile P (xs @ y # ys) = dropWhile P (y # ys)"
  by (induction xs) auto

lemma matchNumberAt_Some:
  assumes "matchNumberAt s = Some m"
  shows "\<exists>post. s = m @ post \<and> isNumberText m \<and> (post = [] \<or> \<not> isDigit (hd post))"
proof (cases s)
  case Nil
  with assms show ?thesis by simp
next
  case (Cons c cs)
  show ?thesis
  proof (cases "c = CHR ''.''")
    case True
    with assms Cons have nz: "takeWhile isDigit cs \<noteq> []" and m: "m = c # takeWhile isDigit cs"
      by (auto split: if_splits)
    have "s = m @ dropWhile isDigit cs" using Cons m by simp
    moreover have "isNumberText m" using m True nz by (simp add: isNumberText_def list_all_takeWhile)
    moreover have "dropWhile isDigit cs = [] \<or> \<not> isDigit (hd (dropWhile isDigit cs))"
      by (metis hd_dropWhile)
    ultimately show ?thesis by blast
  next
    case False
    with assms Cons have dig: "isDigit c" by (auto split: if_splits)
    show ?thesis
    proof (cases "dropWhile isDigit cs")
      case Nil
      with assms Cons False dig have m: "m = c # takeWhile isDigit cs" by simp
      have "s = m @ []" using Cons m Nil by (metis append_Nil2 takeWhile_dropWhile_id list.simps(3) append_Cons)
      moreover have "isNumberText m" using m False dig by (simp add: isNumberText_def dropWhile_takeWhile_nil)
      ultimately show ?thesis by blast
    next
      case (Cons d fs)
      note dw = Cons
      show ?thesis
      proof (cases "d = CHR ''.'' \<and> takeWhile isDigit fs \<noteq> []")
        case True
        with assms \<open>s = c # cs\<close> False dig dw
        have m: "m = c # takeWhile isDigit cs @ d # takeWhile isDigit fs" by simp
        have "cs = takeWhile isDigit cs @ d # fs" using dw by (metis takeWhile_dropWhile_id)
        then have "s = m @ dropWhile isDigit fs"
          using \<open>s = c # cs\<close> m by (metis append_Cons append_assoc takeWhile_dropWhile_id)
        moreover have "isNumberText m"
          using m False dig True
          by (simp add: isNumberText_def dropWhile_append_all list_all_takeWhile)
        moreover have "dropWhile isDigit fs = [] \<or> \<not> isDigit (hd (dropWhile isDigit fs))"
          by (metis hd_dropWhile)
        ultimately show ?thesis by blast
      next
        case F2: False
        with assms \<open>s = c # cs\<close> False dig dw
        have m: "m = c # takeWhile isDigit cs" by auto
        have "s = m @ d # fs" using \<open>s = c # cs\<close> m dw by (metis append_Cons takeWhile_dropWhile_id)
        moreover have "isNumberText m" using m False dig by (simp add: isNumberText_def dropWhile_takeWhile_nil)
        moreover have "\<not> isDigit d" using dw by (metis hd_dropWhile list.sel(1) list.simps(3))
        ultimately show ?thesis by auto
      qed
    qed
  qed
qed

lemma matchNumberAt_None: "matchNumberAt (c # cs) = None \<Longrightarrow> \<not> isDigit c"
  by (auto split: if_splits list.splits)

lemma matchNumberAt_dot: "matchNumberAt (c # cs) = Some m \<Longrightarrow> \<not> isDigit c \<Longrightarrow> c = CHR ''.''"
  by (auto split: if_splits list.splits)

lemma isNumberText_has_digit: "isNumberText m \<Longrightarrow> \<exists>d \<in> set m. isDigit d"
  by (cases m) (auto simp: isNumberText_def neq_Nil_conv split: if_splits)

lemma isNumberText_hd: "isNumberText m \<Longrightarrow> m \<noteq> [] \<and> (hd m = CHR ''.'' \<or> isDigit (hd m))"
  by (cases m) (auto simp: isNumberText_def split: if_splits)

lemma isNumberText_dot: "isNumberText (CHR ''.'' # r) \<Longrightarrow> r \<noteq> [] \<and> isDigit (hd r)"
  by (cases r) (auto simp: isNumberText_def)

lemma matchNumber_None: "matchNumber s = None \<longleftrightarrow> (\<forall>c \<in> set s. \<not> isDigit c)"
proof (induction s)
  case Nil
  show ?case by simp
next
  case (Cons c cs)
  show ?case
  proof (cases "matchNumberAt (c # cs)")
    case None
    then have "\<not> isDigit c" by (rule matchNumberAt_None)
    with None Cons show ?thesis by simp
  next
    case (Some m)
    then obtain post where "c # cs = m @ post" "isNumberText m"
      using matchNumberAt_Some by blast
    then have "\<exists>d \<in> set (c # cs). isDigit d"
      using isNumberText_has_digit by (metis Un_iff set_append)
    with Some show ?thesis by auto
  qed
qed

lemma matchNumber_Some:
  "matchNumber s = Some m \<Longrightarrow>
   \<exists>pre post. s = pre @ m @ post \<and> (\<forall>c \<in> set pre. \<not> isDigit c) \<and> isNumberText m
      \<and> (post = [] \<or> \<not> isDigit (hd post))
      \<and> (pre \<noteq> [] \<and> last pre = CHR ''.'' \<longrightarrow> hd m = CHR ''.'')
      \<and> matchNumberAt (m @ post) = Some m"
proof (induction s)
  case Nil
  then show ?case by simp
next
  case (Cons c cs)
  show ?case
  proof (cases "matchNumberAt (c # cs)")
    case (Some m')
    with Cons.prems have "m' = m" by simp
    with Some obtain post where "c # cs = m @ post" "isNumberText m" "post = [] \<or> \<not> isDigit (hd post)"
      using matchNumberAt_Some by blast
    with Some \<open>m' = m\<close>
    have "c # cs = [] @ m @ post \<and> (\<forall>c \<in> set []. \<not> isDigit c) \<and> isNumberText m
      \<and> (post = [] \<or> \<not> isDigit (hd post))
      \<and> ([] \<noteq> [] \<and> last [] = CHR ''.'' \<longrightarrow> hd m = CHR ''.'')
      \<and> matchNumberAt (m @ post) = Some m" by simp
    then show ?thesis by blast
  next
    case None
    with Cons.prems have rec: "matchNumber cs = Some m" by simp
    from None have nd: "\<not> isDigit c" by (rule matchNumberAt_None)
    from Cons.IH [OF rec] obtain pre post where
      d: "cs = pre @ m @ post" and p: "\<forall>c \<in> set pre. \<not> isDigit c" and n: "isNumberText m"
      and g: "post = [] \<or> \<not> isDigit (hd post)"
      and l: "pre \<noteq> [] \<and> last pre = CHR ''.'' \<longrightarrow> hd m = CHR ''.''"
      and a: "matchNumberAt (m @ post) = Some m"
      by blast
    have "last (c # pre) = CHR ''.'' \<longrightarrow> hd m = CHR ''.''"
    proof (cases pre)
      case Nil
      show ?thesis
      proof
        assume "last (c # pre) = CHR ''.''"
        with Nil have c: "c = CHR ''.''" by simp
        with None have "takeWhile isDigit cs = []" by (simp split: if_splits)
        moreover have "cs = m @ post" using d Nil by simp
        moreover have "m \<noteq> []" "hd m = CHR ''.'' \<or> isDigit (hd m)" using isNumberText_hd [OF n] by auto
        ultimately show "hd m = CHR ''.''"
          by (cases m) (auto simp: takeWhile_eq_Nil_iff)
      qed
    next
      case (Cons a as)
      with l show ?thesis by simp
    qed
    with d p n g nd a have "c # cs = (c # pre) @ m @ post \<and> (\<forall>c \<in> set (c # pre). \<not> isDigit c)
      \<and> isNumberText m \<and> (post = [] \<or> \<not> isDigit (hd post))
      \<and> ((c # pre) \<noteq> [] \<and> last (c # pre) = CHR ''.'' \<longrightarrow> hd m = CHR ''.'')
      \<and> matchNumberAt (m @ post) = Some m"
      by simp
    then show ?thesis by blast
  qed
qed

lemma takeWhile_prefix_all:
  "list_all P xs \<Longrightarrow> length xs \<le> length (takeWhile P (xs @ ys))"
  by (induction xs) auto

text \<open>The match at a position is the longest number text that starts there.\<close>

lemma matchNumberAt_longest:
  assumes m: "matchNumberAt s = Some m" and s: "s = r @ post" and r: "isNumberText r"
  shows "length r \<le> length m"
proof -
  from r obtain c rs where rc: "r = c # rs" by (cases r) (auto simp: isNumberText_def)
  with s have sc: "s = c # rs @ post" by simp
  show ?thesis
  proof (cases "c = CHR ''.''")
    case True
    with r rc have d: "list_all isDigit rs" by (simp add: isNumberText_def)
    from m sc True have "m = c # takeWhile isDigit (rs @ post)" by (auto split: if_splits)
    with takeWhile_prefix_all [OF d, of post] rc show ?thesis by simp
  next
    case False
    with r rc have dig: "isDigit c" by (simp add: isNumberText_def)
    show ?thesis
    proof (cases "dropWhile isDigit rs")
      case Nil
      then have d: "list_all isDigit rs" by (simp add: list_all_iff)
      from m sc False dig have "length (c # takeWhile isDigit (rs @ post)) \<le> length m"
        by (auto split: list.splits if_splits)
      with takeWhile_prefix_all [OF d, of post] rc show ?thesis by simp
    next
      case (Cons d fs)
      with r rc False have dd: "d = CHR ''.''" and fne: "fs \<noteq> []" and fd: "list_all isDigit fs"
        by (simp_all add: isNumberText_def)
      have rs: "rs = takeWhile isDigit rs @ d # fs" using Cons by (metis takeWhile_dropWhile_id)
      have ta: "list_all isDigit (takeWhile isDigit rs)" by (rule list_all_takeWhile)
      have nd: "\<not> isDigit d" using dd by simp
      have tw: "takeWhile isDigit (rs @ post) = takeWhile isDigit rs"
      proof -
        have "takeWhile isDigit (takeWhile isDigit rs @ d # fs @ post) = takeWhile isDigit rs"
          using ta nd by (simp add: takeWhile_append2 list_all_iff)
        with rs show ?thesis by (metis append_Cons append_assoc)
      qed
      have dw: "dropWhile isDigit (rs @ post) = d # fs @ post"
      proof -
        have "dropWhile isDigit (takeWhile isDigit rs @ d # fs @ post) = d # fs @ post"
          using ta nd by (simp add: dropWhile_append_all)
        with rs show ?thesis by (metis append_Cons append_assoc)
      qed
      from fne fd have fz: "takeWhile isDigit (fs @ post) \<noteq> []"
        by (cases fs) auto
      from m sc False dig tw dw dd fz
      have mm: "m = c # takeWhile isDigit rs @ d # takeWhile isDigit (fs @ post)" by simp
      have "length r = Suc (length (takeWhile isDigit rs) + Suc (length fs))"
        using rc rs by (metis length_Cons length_append)
      with mm takeWhile_prefix_all [OF fd, of post] show ?thesis by simp
    qed
  qed
qed

text \<open>No number text starts earlier than the one found.\<close>
lemma first_number:
  assumes s: "pre @ m @ post = pre' @ r @ post'"
    and p: "\<forall>c \<in> set pre. \<not> isDigit c"
    and l: "pre \<noteq> [] \<and> last pre = CHR ''.'' \<longrightarrow> hd m = CHR ''.''"
    and m: "isNumberText m" and r: "isNumberText r"
  shows "length pre \<le> length pre'"
proof (rule ccontr)
  assume "\<not> length pre \<le> length pre'"
  then have lt: "length pre' < length pre" by simp
  from r have rne: "r \<noteq> []" and rh: "hd r = CHR ''.'' \<or> isDigit (hd r)"
    using isNumberText_hd by auto
  have "(pre @ m @ post) ! length pre' = pre ! length pre'" using lt by (simp add: nth_append)
  moreover have "(pre' @ r @ post') ! length pre' = hd r" using rne by (simp add: nth_append hd_conv_nth)
  ultimately have h: "pre ! length pre' = hd r" using s by simp
  have "pre ! length pre' \<in> set pre" using lt by simp
  with p h rh have dot: "hd r = CHR ''.''" by auto
  then obtain r' where r': "r = CHR ''.'' # r'" using rne by (cases r) auto
  with r have r'ne: "r' \<noteq> []" and r'd: "isDigit (hd r')" using isNumberText_dot by auto
  have k: "(pre' @ r @ post') ! Suc (length pre') = hd r'"
    using r' r'ne by (simp add: nth_append hd_conv_nth)
  show False
  proof (cases "Suc (length pre') < length pre")
    case True
    then have "(pre @ m @ post) ! Suc (length pre') = pre ! Suc (length pre')" by (simp add: nth_append)
    with k s have "pre ! Suc (length pre') = hd r'" by simp
    moreover have "pre ! Suc (length pre') \<in> set pre" using True by simp
    ultimately show False using p r'd by auto
  next
    case False
    with lt have e: "Suc (length pre') = length pre" by simp
    from m have mne: "m \<noteq> []" using isNumberText_hd by auto
    have "(pre @ m @ post) ! Suc (length pre') = hd m" using e mne by (simp add: nth_append hd_conv_nth)
    with k s have hm: "hd m = hd r'" by simp
    have "pre \<noteq> []" using lt by auto
    moreover have "last pre = pre ! length pre'"
      using e [symmetric] \<open>pre \<noteq> []\<close> by (simp add: last_conv_nth)
    ultimately have "hd m = CHR ''.''" using l h dot by simp
    with hm r'd show False using not_digit_dot by metis
  qed
qed

text \<open>
  C5. \<^verbatim>\<open>cleanSeriesSequence\<close> extracts the first decimal-or-integer number of its
  input, a leading dot included: \<^verbatim>\<open>"2, Dramatized Adaptation"\<close> gives \<^verbatim>\<open>"2"\<close>,
  \<^verbatim>\<open>".5"\<close> gives \<^verbatim>\<open>".5"\<close>, \<^verbatim>\<open>"1.5"\<close> gives \<^verbatim>\<open>"1.5"\<close>, \<^verbatim>\<open>"Book 2.5"\<close> gives
  \<^verbatim>\<open>"2.5"\<close>, and an input without a digit comes back unchanged. For an input with a
  digit the result is a number text that stands in the input; no number text of the input
  starts before it; and of the number texts that start where it starts it is the longest,
  so that it has all the digits and the decimal part when there is one.
\<close>

theorem cleanSeriesSequence_first_number:
  "cleanSeriesSequence name (Some ''2, Dramatized Adaptation'') = ''2''
   \<and> cleanSeriesSequence name (Some ''.5'') = ''.5''
   \<and> cleanSeriesSequence name (Some ''1.5'') = ''1.5''
   \<and> cleanSeriesSequence name (Some ''Book 2.5'') = ''2.5''
   \<and> ((\<forall>c \<in> set s. \<not> isDigit c) \<longrightarrow> cleanSeriesSequence name (Some s) = s)
   \<and> ((\<exists>c \<in> set s. isDigit c) \<longrightarrow>
        isNumberText (cleanSeriesSequence name (Some s))
        \<and> (\<exists>pre post. s = pre @ cleanSeriesSequence name (Some s) @ post
              \<and> (post = [] \<or> \<not> isDigit (hd post))
              \<and> (\<forall>pre' r post'. s = pre' @ r @ post' \<and> isNumberText r
                    \<longrightarrow> length pre < length pre'
                        \<or> (length pre = length pre'
                            \<and> length r \<le> length (cleanSeriesSequence name (Some s))))))"
proof (intro conjI impI)
  show "cleanSeriesSequence name (Some ''2, Dramatized Adaptation'') = ''2''"
    by (simp add: cleanSeriesSequence_def isDigit_def)
  show "cleanSeriesSequence name (Some ''.5'') = ''.5''"
    by (simp add: cleanSeriesSequence_def isDigit_def)
  show "cleanSeriesSequence name (Some ''1.5'') = ''1.5''"
    by (simp add: cleanSeriesSequence_def isDigit_def)
  show "cleanSeriesSequence name (Some ''Book 2.5'') = ''2.5''"
    by (simp add: cleanSeriesSequence_def isDigit_def)
next
  assume "\<forall>c \<in> set s. \<not> isDigit c"
  then have "matchNumber s = None" by (simp add: matchNumber_None)
  then show "cleanSeriesSequence name (Some s) = s" by (simp add: cleanSeriesSequence_def)
next
  assume d: "\<exists>c \<in> set s. isDigit c"
  then have "matchNumber s \<noteq> None" by (simp add: matchNumber_None)
  then obtain m where m: "matchNumber s = Some m" by blast
  from d have "s \<noteq> []" by auto
  with m have c: "cleanSeriesSequence name (Some s) = m" by (simp add: cleanSeriesSequence_def)
  from matchNumber_Some [OF m] obtain pre post where
    s: "s = pre @ m @ post" and p: "\<forall>c \<in> set pre. \<not> isDigit c" and n: "isNumberText m"
    and g: "post = [] \<or> \<not> isDigit (hd post)"
    and l: "pre \<noteq> [] \<and> last pre = CHR ''.'' \<longrightarrow> hd m = CHR ''.''"
    and a: "matchNumberAt (m @ post) = Some m"
    by blast
  show "isNumberText (cleanSeriesSequence name (Some s))" using c n by simp
  have f: "\<forall>pre' r post'. s = pre' @ r @ post' \<and> isNumberText r
             \<longrightarrow> length pre < length pre' \<or> (length pre = length pre' \<and> length r \<le> length m)"
  proof (intro allI impI)
    fix pre' r post'
    assume h: "s = pre' @ r @ post' \<and> isNumberText r"
    then have e: "pre @ m @ post = pre' @ r @ post'" and r: "isNumberText r" using s by simp_all
    from e r have le: "length pre \<le> length pre'" by (rule first_number [OF _ p l n])
    show "length pre < length pre' \<or> (length pre = length pre' \<and> length r \<le> length m)"
    proof (cases "length pre = length pre'")
      case True
      with e have "m @ post = r @ post'" by simp
      from matchNumberAt_longest [OF a this r] True show ?thesis by simp
    next
      case False
      with le show ?thesis by simp
    qed
  qed
  show "\<exists>pre post. s = pre @ cleanSeriesSequence name (Some s) @ post
          \<and> (post = [] \<or> \<not> isDigit (hd post))
          \<and> (\<forall>pre' r post'. s = pre' @ r @ post' \<and> isNumberText r
                \<longrightarrow> length pre < length pre'
                    \<or> (length pre = length pre'
                        \<and> length r \<le> length (cleanSeriesSequence name (Some s))))"
    unfolding c
  proof (intro exI conjI)
    show "s = pre @ m @ post" by (rule s)
    show "post = [] \<or> \<not> isDigit (hd post)" by (rule g)
    show "\<forall>pre' r post'. s = pre' @ r @ post' \<and> isNumberText r
             \<longrightarrow> length pre < length pre' \<or> (length pre = length pre' \<and> length r \<le> length m)"
      by (rule f)
  qed
qed

theorem cleanSeriesSequence_first_number_witness:
  "cleanSeriesSequence None (Some ''Prequel'') = ''Prequel''
   \<and> isNumberText (cleanSeriesSequence None (Some ''Book 1.5, part 2''))
   \<and> isNumberText ''1.5''
   \<and> length ''1.5'' \<le> length (cleanSeriesSequence None (Some ''Book 1.5, part 2''))
   \<and> cleanSeriesSequence None (Some ''Book 1.5, part 2'') = ''1.5''"
proof -
  have a: "\<forall>c \<in> set ''Prequel''. \<not> isDigit c" by (simp add: isDigit_def)
  have b: "\<exists>c \<in> set ''Book 1.5, part 2''. isDigit c" by (simp add: isDigit_def)
  have n: "isNumberText ''1.5''" by (simp add: isNumberText_def isDigit_def)
  from cleanSeriesSequence_first_number [of None "''Prequel''"] a
  have "cleanSeriesSequence None (Some ''Prequel'') = ''Prequel''" by blast
  moreover from cleanSeriesSequence_first_number [of None "''Book 1.5, part 2''"] b
  obtain pre post where t: "isNumberText (cleanSeriesSequence None (Some ''Book 1.5, part 2''))"
    and s: "''Book 1.5, part 2'' = pre @ cleanSeriesSequence None (Some ''Book 1.5, part 2'') @ post"
    and f: "\<forall>pre' r post'. ''Book 1.5, part 2'' = pre' @ r @ post' \<and> isNumberText r
              \<longrightarrow> length pre < length pre'
                  \<or> (length pre = length pre'
                      \<and> length r \<le> length (cleanSeriesSequence None (Some ''Book 1.5, part 2'')))"
    by blast
  moreover have v: "cleanSeriesSequence None (Some ''Book 1.5, part 2'') = ''1.5''"
    by (simp add: cleanSeriesSequence_def isDigit_def)
  ultimately show ?thesis using n by simp
qed

section \<open>The catalog client\<close>

lemma asinSearch_requests:
  "snd (asinSearch net asin region) =
     (case asin of None \<Rightarrow> [] | Some a \<Rightarrow> if a = [] then [] else [lookupUrl (toUpperCase a) region])"
  by (simp add: asinSearch_def lookupUrl_def Let_def split: option.splits)

lemma asinSearch_result:
  "fst (asinSearch net asin region) =
     (case asin of
        None \<Rightarrow> None
      | Some a \<Rightarrow>
          if a = [] then None
          else (case net (lookupUrl (toUpperCase a) region) of
                  None \<Rightarrow> None
                | Some data \<Rightarrow> if truthy (p_asin data) then Some data else None))"
  by (simp add: asinSearch_def lookupUrl_def Let_def split: option.splits)

lemma asinSearch_has_asin: "fst (asinSearch net asin region) = Some data \<Longrightarrow> truthy (p_asin data)"
  by (auto simp: asinSearch_result split: option.splits if_splits)

text \<open>
  C4, as amended. For a candidate identifier that is missing, empty or does not match the
  identifier pattern, \<^verbatim>\<open>getSeriesBooks\<close>, \<^verbatim>\<open>getBooksBySeriesAsin\<close> and
  \<^verbatim>\<open>getSeriesInfoFromAudible\<close> of the catalog client, and \<^verbatim>\<open>getSeriesBooksByAsin\<close> and
  \<^verbatim>\<open>findSeriesAsinFromBook\<close> of the finder, return the empty list or null and request
  nothing. \<^verbatim>\<open>asinSearch\<close> does so for a missing or empty identifier.
\<close>

theorem invalid_identifier_no_request:
  "(case asin of None \<Rightarrow> True | Some a \<Rightarrow> a = [] \<or> \<not> isValidASIN (toUpperCase a)) \<longrightarrow>
     getSeriesBooks isValidASIN net asin region = ([], [])
     \<and> getBooksBySeriesAsin isValidASIN net asin region = ([], [])
     \<and> getSeriesInfoFromAudible isValidASIN net asin region = (None, [])
     \<and> getSeriesBooksByAsin isValidASIN net asin region = ([], [])
     \<and> findSeriesAsinFromBook isValidASIN net asin region = (None, [])
     \<and> ((case asin of None \<Rightarrow> True | Some a \<Rightarrow> a = []) \<longrightarrow> asinSearch net asin region = (None, []))"
  by (auto simp: getSeriesBooks_def getBooksBySeriesAsin_def getSeriesInfoFromAudible_def
      getSeriesBooksByAsin_def findSeriesAsinFromBook_def asinSearch_def split: option.splits)

theorem invalid_identifier_no_request_witness:
  "\<not> validASIN (toUpperCase ''not an asin'')
   \<and> getSeriesBooks validASIN deadNetwork (Some ''not an asin'') (Some ''us'') = ([], [])
   \<and> getBooksBySeriesAsin validASIN deadNetwork (Some ''not an asin'') (Some ''us'') = ([], [])
   \<and> getSeriesInfoFromAudible validASIN deadNetwork (Some ''not an asin'') (Some ''us'') = (None, [])
   \<and> asinSearch deadNetwork (Some []) (Some ''us'') = (None, [])"
proof -
  have v: "\<not> validASIN (toUpperCase ''not an asin'')" by (simp add: validASIN_def toUpperCase_def)
  from invalid_identifier_no_request [where asin = "Some ''not an asin''" and isValidASIN = validASIN
      and net = deadNetwork and region = "Some ''us''"] v
  have "getSeriesBooks validASIN deadNetwork (Some ''not an asin'') (Some ''us'') = ([], [])
   \<and> getBooksBySeriesAsin validASIN deadNetwork (Some ''not an asin'') (Some ''us'') = ([], [])
   \<and> getSeriesInfoFromAudible validASIN deadNetwork (Some ''not an asin'') (Some ''us'') = (None, [])"
    by simp
  moreover from invalid_identifier_no_request [where asin = "Some []" and isValidASIN = validASIN
      and net = deadNetwork and region = "Some ''us''"]
  have "asinSearch deadNetwork (Some []) (Some ''us'') = (None, [])" by simp
  ultimately show ?thesis using v by blast
qed

text \<open>
  C4, as stated, fails for \<^verbatim>\<open>asinSearch\<close>: it does not test the pattern, and for an
  identifier that does not match it the lookup is requested all the same.
\<close>

theorem asinSearch_requests_invalid_identifier:
  "\<not> validASIN (toUpperCase ''not an asin'')
   \<and> asinSearch deadNetwork (Some ''not an asin'') (Some ''us'')
       = (None, [''https://api.audnex.us/books/NOT%20AN%20ASIN?region=us''])"
  by (simp add: validASIN_def toUpperCase_def upperChar_def asinSearch_def encodeURIComponent_def
      uriUnreserved_def hexDigit_def deadNetwork_def)


subsection \<open>Listing the books of a series\<close>

lemma getSeriesBooks_stages:
  assumes "a \<noteq> []" "isValidASIN (toUpperCase a)"
  shows "getSeriesBooks isValidASIN net (Some a) region =
     (case similarProducts net (toUpperCase a) (knownRegion region) of
        None \<Rightarrow> ([], [simsUrl (toUpperCase a) (knownRegion region)])
      | Some products \<Rightarrow>
          (map cleanResult
             (filterBoolean (fst (asinSearch net (Some (toUpperCase a)) (knownRegion region))
                # map (\<lambda>p. fst (asinSearch net (sp_asin p) (knownRegion region))) products)),
           simsUrl (toUpperCase a) (knownRegion region)
             # concat (map (\<lambda>p. snd (asinSearch net (sp_asin p) (knownRegion region))) products)
             @ [lookupUrl (toUpperCase a) (knownRegion region)]))"
  using assms
  by (simp add: getSeriesBooks_def similarProducts_def simsUrl_def Let_def asinSearch_requests
      filterBoolean_Cons comp_def split: option.splits)

text \<open>
  C6, as amended. \<^verbatim>\<open>getBooksBySeriesAsin\<close> for a valid series identifier works in
  stages. It asks for the relationships of the series and takes the first one marked child
  of series; when that request fails, or there is no such relationship, or it has no
  identifier, or the identifier is not valid, the result is empty and nothing else is
  requested. It then asks for the similarity set of that book; when that request fails or
  has no list, the result is empty and no book is looked up. Otherwise it looks up every
  similar product and then the discovered book: the result is the discovered book, if its
  lookup succeeded, followed by the similar products whose lookup succeeded, each cleaned.
\<close>

theorem getBooksBySeriesAsin_stages:
  assumes "a \<noteq> []" "isValidASIN (toUpperCase a)"
  shows "getBooksBySeriesAsin isValidASIN net (Some a) region =
     (case discoveredBook net (toUpperCase a) (knownRegion region) of
        None \<Rightarrow> ([], [relationshipsUrl (toUpperCase a) (knownRegion region)])
      | Some child \<Rightarrow>
          if \<not> isValidASIN (toUpperCase child)
          then ([], [relationshipsUrl (toUpperCase a) (knownRegion region)])
          else
            (case similarProducts net (toUpperCase child) (knownRegion region) of
               None \<Rightarrow> ([], [relationshipsUrl (toUpperCase a) (knownRegion region),
                             simsUrl (toUpperCase child) (knownRegion region)])
             | Some products \<Rightarrow>
                 (map cleanResult
                    (filterBoolean
                       (fst (asinSearch net (Some (toUpperCase child)) (knownRegion region))
                        # map (\<lambda>p. fst (asinSearch net (sp_asin p) (knownRegion region))) products)),
                  relationshipsUrl (toUpperCase a) (knownRegion region)
                    # simsUrl (toUpperCase child) (knownRegion region)
                    # concat (map (\<lambda>p. snd (asinSearch net (sp_asin p) (knownRegion region))) products)
                    @ [lookupUrl (toUpperCase child) (knownRegion region)])))"
proof (cases "discoveredBook net (toUpperCase a) (knownRegion region)")
  case None
  with assms show ?thesis
    by (auto simp: getBooksBySeriesAsin_def discoveredBook_def relationshipsUrl_def Let_def
        split: option.splits if_splits)
next
  case (Some child)
  then have c: "child \<noteq> []"
    by (auto simp: discoveredBook_def split: option.splits if_splits)
  from Some assms have g: "getBooksBySeriesAsin isValidASIN net (Some a) region =
      (fst (getSeriesBooks isValidASIN net (Some child) (knownRegion region)),
       relationshipsUrl (toUpperCase a) (knownRegion region)
         # snd (getSeriesBooks isValidASIN net (Some child) (knownRegion region)))"
    by (auto simp: getBooksBySeriesAsin_def discoveredBook_def relationshipsUrl_def Let_def
        split: option.splits if_splits)
  show ?thesis
  proof (cases "isValidASIN (toUpperCase child)")
    case False
    with c have "getSeriesBooks isValidASIN net (Some child) (knownRegion region) = ([], [])"
      by (simp add: getSeriesBooks_def)
    with g Some False show ?thesis by simp
  next
    case True
    from getSeriesBooks_stages [where a = child and isValidASIN = isValidASIN and net = net
        and region = "knownRegion region"] c g Some True
    show ?thesis by (simp split: option.splits)
  qed
qed


lemma example_lookup_3:
  "asinSearch exampleNetwork (Some ''B0BOOK0003'') (Some ''us'')
     = (None, [''https://api.audnex.us/books/B0BOOK0003?region=us''])"
  by (simp add: asinSearch_def example_eval)

lemma example_series_books:
  "getBooksBySeriesAsin validASIN exampleNetwork (Some ''b0series01'') (Some ''us'') =
     ([exampleBook ''B0BOOK0001'' ''One'' ''1'', exampleBook ''B0BOOK0002'' ''Two'' ''2''],
      [''https://api.audible.com/1.0/catalog/products/B0SERIES01?response_groups=relationships'',
       ''https://api.audible.com/1.0/catalog/products/B0BOOK0001/sims?similarity_type=InTheSameSeries&num_results=50'',
       ''https://api.audnex.us/books/B0BOOK0002?region=us'',
       ''https://api.audnex.us/books/B0BOOK0003?region=us'',
       ''https://api.audnex.us/books/B0BOOK0001?region=us''])"
  by (simp add: getBooksBySeriesAsin_def getSeriesBooks_def asinSearch_def example_eval)

theorem getBooksBySeriesAsin_stages_witness:
  "getBooksBySeriesAsin validASIN exampleNetwork (Some ''b0series01'') (Some ''us'') =
     ([exampleBook ''B0BOOK0001'' ''One'' ''1'', exampleBook ''B0BOOK0002'' ''Two'' ''2''],
      [''https://api.audible.com/1.0/catalog/products/B0SERIES01?response_groups=relationships'',
       ''https://api.audible.com/1.0/catalog/products/B0BOOK0001/sims?similarity_type=InTheSameSeries&num_results=50'',
       ''https://api.audnex.us/books/B0BOOK0002?region=us'',
       ''https://api.audnex.us/books/B0BOOK0003?region=us'',
       ''https://api.audnex.us/books/B0BOOK0001?region=us''])
   \<and> getBooksBySeriesAsin validASIN exampleNetwork (Some ''b0series99'') (Some ''us'') =
     ([], [''https://api.audible.com/1.0/catalog/products/B0SERIES99?response_groups=relationships''])"
proof -
  have v: "''b0series01'' \<noteq> []" "validASIN (toUpperCase ''b0series01'')"
    and u: "''b0series99'' \<noteq> []" "validASIN (toUpperCase ''b0series99'')"
    by (simp_all add: validASIN_def toUpperCase_def upperChar_def)
  from getBooksBySeriesAsin_stages [where isValidASIN = validASIN and net = exampleNetwork
      and region = "Some ''us''", OF v]
  have "getBooksBySeriesAsin validASIN exampleNetwork (Some ''b0series01'') (Some ''us'') =
     ([exampleBook ''B0BOOK0001'' ''One'' ''1'', exampleBook ''B0BOOK0002'' ''Two'' ''2''],
      [''https://api.audible.com/1.0/catalog/products/B0SERIES01?response_groups=relationships'',
       ''https://api.audible.com/1.0/catalog/products/B0BOOK0001/sims?similarity_type=InTheSameSeries&num_results=50'',
       ''https://api.audnex.us/books/B0BOOK0002?region=us'',
       ''https://api.audnex.us/books/B0BOOK0003?region=us'',
       ''https://api.audnex.us/books/B0BOOK0001?region=us''])"
    by (simp add: discoveredBook_def similarProducts_def asinSearch_def example_eval)
  moreover
  from getBooksBySeriesAsin_stages [where isValidASIN = validASIN and net = exampleNetwork
      and region = "Some ''us''", OF u]
  have "getBooksBySeriesAsin validASIN exampleNetwork (Some ''b0series99'') (Some ''us'') =
     ([], [''https://api.audible.com/1.0/catalog/products/B0SERIES99?response_groups=relationships''])"
    by (simp add: discoveredBook_def example_eval)
  ultimately show ?thesis by simp
qed

text \<open>
  C6, as stated, fails: in the example catalog the lookup of the similar product
  \<^verbatim>\<open>B0BOOK0003\<close> fails, and the result is not empty; the discovered book is looked up
  after the failure and the two books that resolved are returned.
\<close>

theorem failed_lookup_keeps_other_books:
  "asinSearch exampleNetwork (Some ''B0BOOK0003'') (Some ''us'')
     = (None, [''https://api.audnex.us/books/B0BOOK0003?region=us''])
   \<and> getBooksBySeriesAsin validASIN exampleNetwork (Some ''b0series01'') (Some ''us'') =
     ([exampleBook ''B0BOOK0001'' ''One'' ''1'', exampleBook ''B0BOOK0002'' ''Two'' ''2''],
      [''https://api.audible.com/1.0/catalog/products/B0SERIES01?response_groups=relationships'',
       ''https://api.audible.com/1.0/catalog/products/B0BOOK0001/sims?similarity_type=InTheSameSeries&num_results=50'',
       ''https://api.audnex.us/books/B0BOOK0002?region=us'',
       ''https://api.audnex.us/books/B0BOOK0003?region=us'',
       ''https://api.audnex.us/books/B0BOOK0001?region=us''])"
  using example_lookup_3 example_series_books by simp

section \<open>Promises and what operations keep\<close>

lemma resolve_apply [simp]: "resolve x w = (Inr x, w)"
  by (simp add: resolve_def)

lemma await_apply:
  "await p k w = (case p w of (Inl e, w') \<Rightarrow> (Inl e, w') | (Inr x, w') \<Rightarrow> k x w')"
  by (simp add: await_def)

lemma tryCatch_apply:
  "tryCatch p h w = (case p w of (Inl e, w') \<Rightarrow> h e w' | (Inr x, w') \<Rightarrow> (Inr x, w'))"
  by (simp add: tryCatch_def)

lemma statement_no_fault [simp]: "faults w = [] \<Longrightarrow> statement run w = run w"
  by (simp add: statement_def)

lemma request_apply [simp]:
  "request operation w =
     (Inr (fst (operation (http w))), w\<lparr>trace := trace w @ map Request (snd (operation (http w)))\<rparr>)"
  by (simp add: request_def)

lemma logger_fields [simp]:
  "newReleaseTable (logger lvl line w) = newReleaseTable w"
  "trackedSeriesTable (logger lvl line w) = trackedSeriesTable w"
  "tables (logger lvl line w) = tables w"
  "faults (logger lvl line w) = faults w"
  "isRunning (logger lvl line w) = isRunning w"
  "seriesTable (logger lvl line w) = seriesTable w"
  "http (logger lvl line w) = http w"
  "clock (logger lvl line w) = clock w"
  "nextId (logger lvl line w) = nextId w"
  "trace (logger lvl line w) = trace w @ [Log lvl line]"
  by (simp_all add: logger_def)

subsection \<open>Results\<close>

lemma returns_resolve: "Q x \<Longrightarrow> returns Q (resolve x)"
  by (simp add: returns_def)

lemma returns_await: "(\<And>x. returns Q (k x)) \<Longrightarrow> returns Q (await p k)"
  by (auto simp: returns_def await_def split: prod.splits sum.splits)

lemma returns_case_option:
  "returns Q n \<Longrightarrow> (\<And>v. returns Q (s v)) \<Longrightarrow> returns Q (case x of None \<Rightarrow> n | Some v \<Rightarrow> s v)"
  by (cases x) simp_all

subsection \<open>Parts of the world an operation keeps\<close>

lemma keeps_resolve [intro!]: "keeps f (resolve x)"
  by (simp add: keeps_def)

lemma keeps_Pair [simp, intro!]: "keeps f (Pair r)"
  by (simp add: keeps_def)

lemma keeps_await [intro!]:
  assumes "keeps f p" "\<And>x. keeps f (k x)"
  shows "keeps f (await p k)"
  unfolding keeps_def
proof
  fix w
  show "f (snd (await p k w)) = f w"
  proof (cases "p w")
    case (Pair r w')
    from assms(1) Pair have a: "f w' = f w" by (metis keeps_def snd_conv)
    show ?thesis
    proof (cases r)
      case (Inl e)
      with Pair a show ?thesis by (simp add: await_def)
    next
      case (Inr x)
      from assms(2) have "f (snd (k x w')) = f w'" by (simp add: keeps_def)
      with Pair Inr a show ?thesis by (simp add: await_def)
    qed
  qed
qed

lemma keeps_tryCatch [intro!]:
  assumes "keeps f p" "\<And>e. keeps f (h e)"
  shows "keeps f (tryCatch p h)"
  unfolding keeps_def
proof
  fix w
  show "f (snd (tryCatch p h w)) = f w"
  proof (cases "p w")
    case (Pair r w')
    from assms(1) Pair have a: "f w' = f w" by (metis keeps_def snd_conv)
    show ?thesis
    proof (cases r)
      case (Inl e)
      from assms(2) have "f (snd (h e w')) = f w'" by (simp add: keeps_def)
      with Pair Inl a show ?thesis by (simp add: tryCatch_def)
    next
      case (Inr x)
      with Pair a show ?thesis by (simp add: tryCatch_def)
    qed
  qed
qed

lemma keeps_statement:
  assumes q: "quiet f" and k: "keeps f run"
  shows "keeps f (statement run)"
  unfolding keeps_def
proof
  fix w
  show "f (snd (statement run w)) = f w"
  proof (cases "faults w")
    case Nil
    with k show ?thesis by (simp add: statement_def keeps_def)
  next
    case (Cons failed rest)
    from q have e: "f (w\<lparr>faults := rest\<rparr>) = f w" by (simp add: quiet_def)
    from k have "f (snd (run (w\<lparr>faults := rest\<rparr>))) = f (w\<lparr>faults := rest\<rparr>)"
      by (simp add: keeps_def)
    with Cons e show ?thesis by (simp add: statement_def)
  qed
qed

lemma keeps_read [intro!]: "quiet f \<Longrightarrow> keeps f (statement (\<lambda>w. (Inr (g w), w)))"
  by (rule keeps_statement) (simp_all add: keeps_def)

lemma keeps_request [intro!]: "quiet f \<Longrightarrow> keeps f (request operation)"
  by (simp add: keeps_def quiet_def)

lemma quiet_logger [simp]: "quiet f \<Longrightarrow> f (logger lvl line w) = f w"
  by (simp add: logger_def quiet_def)

lemma quiet_delay [simp]: "quiet f \<Longrightarrow> f (delay ms w) = f w"
proof -
  assume q: "quiet f"
  have "f (delay ms w) = f (w\<lparr>clock := clock w + int ms\<rparr>\<lparr>trace := trace w @ [Delay ms]\<rparr>)"
    by (simp add: delay_def)
  also have "\<dots> = f (w\<lparr>clock := clock w + int ms\<rparr>)" using q unfolding quiet_def by blast
  also have "\<dots> = f w" using q unfolding quiet_def by blast
  finally show ?thesis .
qed

lemma quiet_notify [simp]: "quiet f \<Longrightarrow> f (notifyNewReleases t rs w) = f w"
  by (simp add: notifyNewReleases_def quiet_def)

lemma quiet_emit [simp]: "quiet f \<Longrightarrow> f (emitNewReleasesUpdate u w) = f w"
  by (simp add: emitNewReleasesUpdate_def quiet_def)

lemma keeps_after_logger: "quiet f \<Longrightarrow> keeps f p \<Longrightarrow> keeps f (\<lambda>w. p (logger lvl line w))"
  by (simp add: keeps_def)

lemma keeps_seriesFindByPk [intro!]: "quiet f \<Longrightarrow> keeps f (seriesFindByPk i)"
  unfolding seriesFindByPk_def by (rule keeps_read)

lemma keeps_libraryFindByPk [intro!]: "quiet f \<Longrightarrow> keeps f (libraryFindByPk i)"
  unfolding libraryFindByPk_def by (rule keeps_read)

lemma keeps_getBooks [intro!]: "quiet f \<Longrightarrow> keeps f (getBooksExpandedWithLibraryItem i)"
  unfolding getBooksExpandedWithLibraryItem_def by (rule keeps_read)

lemma keeps_releasesOfTrackedSeries [intro!]: "quiet f \<Longrightarrow> keeps f (releasesOfTrackedSeries i)"
  unfolding releasesOfTrackedSeries_def by (rule keeps_read)

lemma keeps_trackedSeriesFindByPk [intro!]: "quiet f \<Longrightarrow> keeps f (trackedSeriesFindByPk i)"
  unfolding trackedSeriesFindByPk_def by (rule keeps_read)

lemma keeps_getByUserAndSeries [intro!]: "quiet f \<Longrightarrow> keeps f (getByUserAndSeries u i)"
  unfolding getByUserAndSeries_def by (rule keeps_read)

lemma keeps_getDueForCheck [intro!]: "quiet f \<Longrightarrow> keeps f (getDueForCheck t n)"
  unfolding getDueForCheck_def by (rule keeps_read)

lemma keeps_getForTrackedSeries [intro!]: "quiet f \<Longrightarrow> keeps f (getForTrackedSeries c i opts)"
  unfolding getForTrackedSeries_def by (rule keeps_read)

lemma identityOnly_touch:
  assumes "identityOnly f" "\<And>row. trackedIdentity (g row) = trackedIdentity row"
  shows "f (w\<lparr>trackedSeriesTable := map g (trackedSeriesTable w)\<rparr>) = f w"
proof -
  have "map trackedIdentity (map g (trackedSeriesTable w)) = map trackedIdentity (trackedSeriesTable w)"
    using assms(2) by simp
  with assms(1) show ?thesis unfolding identityOnly_def by blast
qed

lemma keeps_updateLastChecked [intro!]:
  "quiet f \<Longrightarrow> identityOnly f \<Longrightarrow> keeps f (updateLastChecked t)"
  unfolding updateLastChecked_def
  by (rule keeps_statement) (simp_all add: keeps_def identityOnly_touch trackedIdentity_def)

lemma keeps_updateSeriesAsin [intro!]:
  "quiet f \<Longrightarrow> identityOnly f \<Longrightarrow> keeps f (updateSeriesAsin t a)"
  unfolding updateSeriesAsin_def
  by (rule keeps_statement) (simp_all add: keeps_def identityOnly_touch trackedIdentity_def)

lemma findSeriesAsinFromBooks_keeps:
  "quiet f \<Longrightarrow> f (snd (findSeriesAsinFromBooks isValidASIN region books w)) = f w"
  by (induction books arbitrary: w) (auto simp: quiet_def split: option.splits)

lemma keeps_findSeriesAsinFromBooks [intro!]:
  "quiet f \<Longrightarrow> keeps f (findSeriesAsinFromBooks isValidASIN region books)"
  by (simp add: keeps_def findSeriesAsinFromBooks_keeps)

lemma keeps_findSeriesAsinFromLibrary [intro!]:
  "quiet f \<Longrightarrow> keeps f (findSeriesAsinFromLibrary isValidASIN seriesId region)"
  unfolding findSeriesAsinFromLibrary_def by (auto split: option.splits)

lemma keeps_resolveSeriesAsin [intro!]:
  "quiet f \<Longrightarrow> identityOnly f \<Longrightarrow> keeps f (resolveSeriesAsin isValidASIN seriesName trackedSeries)"
  unfolding resolveSeriesAsin_def by (auto intro: keeps_after_logger)

lemma keeps_getNewReleasesForSeries [intro!]:
  "quiet f \<Longrightarrow> keeps f (getNewReleasesForSeries isValidASIN trackedSeries)"
  unfolding getNewReleasesForSeries_def by (auto split: option.splits)

lemma quiet_releaseStore [simp]: "quiet releaseStore"
  by (simp add: quiet_def releaseStore_def)

lemma identityOnly_releaseStore [simp]: "identityOnly releaseStore"
  by (simp add: identityOnly_def releaseStore_def)

lemma identityOnly_isRunning [simp]: "identityOnly isRunning"
  by (simp add: identityOnly_def)

lemma quiet_isRunning [simp]: "quiet isRunning"
  by (simp add: quiet_def)

lemma releaseFree_isRunning [simp]: "releaseFree isRunning"
  by (simp add: releaseFree_def)


subsection \<open>Creating releases\<close>

lemma insertNewRelease_cases:
  "insertNewRelease data asin title w = (r, w') \<Longrightarrow>
     (\<exists>e. r = Inl e \<and> w' = w)
     \<or> (\<exists>row. r = Inr row
          \<and> w' = w\<lparr>nextId := Suc (nextId w), newReleaseTable := newReleaseTable w @ [row]\<rparr>
          \<and> nr_asin row = asin \<and> nr_trackedSeriesId row = rd_trackedSeriesId data
          \<and> \<not> (hasUniqueIndex (tables w) ''newReleases'' [''trackedSeriesId'', ''asin'']
                \<and> list_ex (\<lambda>old. nr_trackedSeriesId old = nr_trackedSeriesId row \<and> nr_asin old = nr_asin row)
                     (newReleaseTable w)))"
  by (auto simp: insertNewRelease_def Let_def split: if_splits)

lemma keeps_insertNewRelease:
  assumes "quiet f" "releaseFree f"
  shows "keeps f (insertNewRelease data asin title)"
  unfolding keeps_def
proof
  fix w
  obtain r w' where p: "insertNewRelease data asin title w = (r, w')" by (cases "insertNewRelease data asin title w")
  have e: "f (w\<lparr>nextId := n, newReleaseTable := rows\<rparr>) = f w" for n rows
  proof -
    have "f (w\<lparr>nextId := n, newReleaseTable := rows\<rparr>) = f (w\<lparr>nextId := n\<rparr>)"
      using assms(2) unfolding releaseFree_def by blast
    also have "\<dots> = f w" using assms(1) unfolding quiet_def by blast
    finally show ?thesis .
  qed
  from insertNewRelease_cases [OF p] e p
  show "f (snd (insertNewRelease data asin title w)) = f w" by auto
qed

lemma keeps_createNewRelease [intro!]:
  assumes "quiet f" "releaseFree f"
  shows "keeps f (createNewRelease data)"
proof (cases "rd_asin data")
  case None
  then show ?thesis by (simp add: createNewRelease_def keeps_def)
next
  case (Some a)
  then show ?thesis
    by (cases "rd_title data")
       (simp_all add: createNewRelease_def keeps_def [of f "\<lambda>w. (Inl ValidationError, w)"]
          keeps_statement [OF assms(1) keeps_insertNewRelease [OF assms]])
qed

lemma keeps_createReleases [intro!]:
  assumes "quiet f" "releaseFree f"
  shows "keeps f (createReleases t n books acc)"
proof -
  have "f (snd (createReleases t n books acc w)) = f w" for w
  proof (induction books arbitrary: acc w)
    case Nil
    show ?case by simp
  next
    case (Cons book rest)
    obtain r w1 where c: "createNewRelease (releaseDataOf t book) w = (r, w1)"
      by (cases "createNewRelease (releaseDataOf t book) w")
    have "f w1 = f w" using keeps_createNewRelease [OF assms(1,2), of "releaseDataOf t book"] c
      by (metis keeps_def snd_conv)
    with c Cons assms(1) show ?case by (cases r) simp_all
  qed
  then show ?thesis by (simp add: keeps_def)
qed

lemma keeps_checkSeriesForNewReleases [intro!]:
  assumes "quiet f" "releaseFree f" "identityOnly f"
  shows "keeps f (checkSeriesForNewReleases isValidASIN t)"
proof -
  have "keeps f (\<lambda>w. (Inr (c::newRelease list), if c \<noteq> [] then emitNewReleasesUpdate u (notifyNewReleases tr c w) else w))" for c u tr
    using assms(1) by (simp add: keeps_def)
  with assms have "keeps f (tryCatch
          (await (resolveSeriesAsin isValidASIN (seriesNameOf t) t)
             (\<lambda>resolved.
                case resolved of
                  None \<Rightarrow> resolve []
                | Some tracked \<Rightarrow>
                    await (getNewReleasesForSeries isValidASIN tracked)
                      (\<lambda>found.
                         await (createReleases tracked (seriesNameOf t) found [])
                           (\<lambda>createdReleases.
                              await (updateLastChecked tracked)
                                (\<lambda>_ w.
                                   (Inr createdReleases,
                                    if createdReleases \<noteq> []
                                    then emitNewReleasesUpdate (ts_userId tracked)
                                           (notifyNewReleases tracked createdReleases w)
                                    else w))))))
          (\<lambda>error w.
             await (updateLastChecked t) (\<lambda>_. resolve [])
               (logger ERROR (ErrorCheckingSeries (seriesNameOf t) error) w)))"
    by (auto split: option.splits intro!: keeps_after_logger)
  with assms(1) show ?thesis
    unfolding checkSeriesForNewReleases_def by (simp add: keeps_def)
qed

lemma checkEach_keeps:
  assumes "quiet f" "releaseFree f" "identityOnly f"
  shows "f (snd (checkEach isValidASIN ts w)) = f w"
proof (induction ts arbitrary: w)
  case Nil
  show ?case by simp
next
  case (Cons t rest)
  obtain r w1 where c: "checkSeriesForNewReleases isValidASIN t w = (r, w1)"
    by (cases "checkSeriesForNewReleases isValidASIN t w")
  have w1: "f w1 = f w" using keeps_checkSeriesForNewReleases [OF assms, of isValidASIN t] c
    by (metis keeps_def snd_conv)
  show ?case
  proof (cases r)
    case (Inl e)
    with c w1 show ?thesis by simp
  next
    case (Inr x)
    have "f (snd (checkEach isValidASIN rest (delay 2000 w1))) = f (delay 2000 w1)"
      by (rule Cons.IH)
    also have "\<dots> = f w1" using assms(1) by simp
    finally show ?thesis using c Inr w1 by simp
  qed
qed

lemma keeps_checkEach [intro!]:
  "quiet f \<Longrightarrow> releaseFree f \<Longrightarrow> identityOnly f \<Longrightarrow> keeps f (checkEach isValidASIN ts)"
  by (simp add: keeps_def checkEach_keeps)

lemma keeps_manualCheck [intro!]:
  assumes "quiet f" "releaseFree f" "identityOnly f"
  shows "keeps f (manualCheck isValidASIN i)"
proof -
  have "keeps f (\<lambda>w. (Inr ([]::newRelease list), logger WARN (TrackedSeriesNotFound i) w))"
    using assms(1) by (simp add: keeps_def)
  with assms show ?thesis unfolding manualCheck_def by (auto split: option.splits)
qed


text \<open>A query either fails, or answers from the tables as they are; it takes its entry of
  the fault schedule and changes nothing else.\<close>

lemma statement_read_any:
  assumes "statement (\<lambda>w. (Inr (g w), w)) w = (r, w')"
  shows "w' = w\<lparr>faults := tl (faults w)\<rparr>
         \<and> (r = Inr (g w') \<or> (faults w \<noteq> [] \<and> r = Inl DatabaseError))"
proof (cases "faults w")
  case Nil
  with assms have "w' = w" "r = Inr (g w)" by (auto simp: statement_def)
  moreover from Nil have "w\<lparr>faults := tl (faults w)\<rparr> = w" by simp
  ultimately show ?thesis by simp
next
  case (Cons failed rest)
  with assms show ?thesis by (cases failed) (auto simp: statement_def)
qed

lemma statement_read:
  assumes "statement (\<lambda>w. (Inr (g w), w)) w = (Inr r, w')"
  shows "\<exists>rest. w' = w\<lparr>faults := rest\<rparr> \<and> r = g w'"
  using statement_read_any [OF assms] by blast

subsection \<open>Properties of the release store\<close>

lemma maintains_keeps: "keeps releaseStore p \<Longrightarrow> maintains J p"
  by (simp add: maintains_def keeps_def)

lemma maintains_await:
  assumes r: "returns Q p" and p: "maintains J p" and k: "\<And>x. Q x \<Longrightarrow> maintains J (k x)"
  shows "maintains J (await p k)"
  unfolding maintains_def
proof (intro allI impI)
  fix w
  assume j: "J (releaseStore w)"
  obtain res w' where c: "p w = (res, w')" by (cases "p w")
  from p j c have j': "J (releaseStore w')" by (metis maintains_def snd_conv)
  show "J (releaseStore (snd (await p k w)))"
  proof (cases res)
    case (Inl e)
    with c j' show ?thesis by (simp add: await_def)
  next
    case (Inr x)
    with r c have "Q x" by (auto simp: returns_def)
    then have "J (releaseStore (snd (k x w')))" using k j' by (simp add: maintains_def)
    with c Inr show ?thesis by (simp add: await_def)
  qed
qed

lemma returns_True: "returns (\<lambda>x. True) p"
  by (simp add: returns_def)

lemma maintains_tryCatch:
  assumes p: "maintains J p" and h: "\<And>e. maintains J (h e)"
  shows "maintains J (tryCatch p h)"
  unfolding maintains_def
proof (intro allI impI)
  fix w
  assume j: "J (releaseStore w)"
  obtain res w' where c: "p w = (res, w')" by (cases "p w")
  from p j c have j': "J (releaseStore w')" by (metis maintains_def snd_conv)
  show "J (releaseStore (snd (tryCatch p h w)))"
  proof (cases res)
    case (Inl e)
    from h j' have "J (releaseStore (snd (h e w')))" by (simp add: maintains_def)
    with c Inl show ?thesis by (simp add: tryCatch_def)
  next
    case (Inr x)
    with c j' show ?thesis by (simp add: tryCatch_def)
  qed
qed

lemma maintains_createReleases:
  assumes "\<And>book. book \<in> set books \<Longrightarrow> maintains J (createNewRelease (releaseDataOf t book))"
  shows "maintains J (createReleases t n books acc)"
proof -
  have "J (releaseStore w) \<Longrightarrow> J (releaseStore (snd (createReleases t n books acc w)))" for w
    using assms
  proof (induction books arbitrary: acc w)
    case Nil
    then show ?case by simp
  next
    case (Cons book rest)
    obtain r w1 where c: "createNewRelease (releaseDataOf t book) w = (r, w1)"
      by (cases "createNewRelease (releaseDataOf t book) w")
    have "maintains J (createNewRelease (releaseDataOf t book))" using Cons.prems(2) by simp
    with Cons.prems(1) c have j1: "J (releaseStore w1)" by (metis maintains_def snd_conv)
    have l: "releaseStore (logger lvl line w1) = releaseStore w1" for lvl line by simp
    have rest: "\<And>b. b \<in> set rest \<Longrightarrow> maintains J (createNewRelease (releaseDataOf t b))"
      using Cons.prems(2) by simp
    show ?case
    proof (cases r)
      case (Inl e)
      have "J (releaseStore (if e = UniqueConstraintError
             then logger DEBUG (ReleaseAlreadyExists (sb_asin book)) w1
             else logger ERROR (ErrorCreatingReleaseRecord e) w1))" using j1 l by simp
      from Cons.IH [OF this rest] c Inl show ?thesis by simp
    next
      case (Inr release)
      have "J (releaseStore (logger INFO (NewReleaseFound (sb_title book) n) w1))" using j1 l by simp
      from Cons.IH [OF this rest] c Inr show ?thesis by simp
    qed
  qed
  then show ?thesis by (simp add: maintains_def)
qed

lemma createNewRelease_cases:
  assumes "createNewRelease data w = (r, w')"
  shows "(\<exists>e. r = Inl e \<and> releaseStore w' = releaseStore w)
     \<or> (\<exists>row. r = Inr row \<and> releaseStore w' = (newReleaseTable w @ [row], tables w)
          \<and> rd_asin data = Some (nr_asin row) \<and> nr_trackedSeriesId row = rd_trackedSeriesId data
          \<and> \<not> (hasUniqueIndex (tables w) ''newReleases'' [''trackedSeriesId'', ''asin'']
                \<and> list_ex (\<lambda>old. nr_trackedSeriesId old = nr_trackedSeriesId row \<and> nr_asin old = nr_asin row)
                     (newReleaseTable w)))"
proof (cases "rd_asin data")
  case None
  with assms show ?thesis by (auto simp: createNewRelease_def)
next
  case (Some a)
  note a = Some
  show ?thesis
  proof (cases "rd_title data")
    case None
    with assms a show ?thesis by (auto simp: createNewRelease_def)
  next
    case (Some t)
    with assms a have s: "statement (insertNewRelease data a t) w = (r, w')"
      by (simp add: createNewRelease_def)
    show ?thesis
    proof (cases "faults w")
      case Nil
      with s have "insertNewRelease data a t w = (r, w')" by simp
      from insertNewRelease_cases [OF this] a show ?thesis by (auto simp: releaseStore_def)
    next
      case (Cons failed rest)
      show ?thesis
      proof (cases failed)
        case True
        with s Cons show ?thesis by (auto simp: statement_def releaseStore_def)
      next
        case False
        with s Cons have "insertNewRelease data a t (w\<lparr>faults := rest\<rparr>) = (r, w')"
          by (simp add: statement_def)
        from insertNewRelease_cases [OF this] a show ?thesis by (auto simp: releaseStore_def)
      qed
    qed
  qed
qed

section \<open>The diff\<close>

lemma ownedIds_Nil [simp]: "ownedIds [] = {}"
  by (simp add: ownedIds_def)

lemma ownedIds_Cons:
  "ownedIds (book # rest) =
     (case lb_asin book of None \<Rightarrow> {} | Some a \<Rightarrow> {toUpperCase a}) \<union> ownedIds rest"
  by (simp add: ownedIds_def split: option.splits)

lemma libraryAsins_Nil [simp]: "libraryAsins [] = {}"
  by (simp add: libraryAsins_def)

lemma libraryAsins_Cons:
  "libraryAsins (book # rest) =
     (case lb_asin book of
        None \<Rightarrow> {}
      | Some a \<Rightarrow> if a = [] then {} else {Some (toUpperCase a)}) \<union> libraryAsins rest"
  by (simp add: libraryAsins_def split: option.splits)

lemma libraryAsins_iff:
  "Some u \<in> libraryAsins libraryBooks \<longleftrightarrow> u \<noteq> [] \<and> u \<in> ownedIds libraryBooks"
proof (induction libraryBooks)
  case Nil
  show ?case by simp
next
  case (Cons book rest)
  show ?case
  proof (cases "lb_asin book")
    case None
    with Cons show ?thesis by (simp add: libraryAsins_Cons ownedIds_Cons)
  next
    case (Some a)
    with Cons show ?thesis by (cases "a = []") (auto simp: libraryAsins_Cons ownedIds_Cons)
  qed
qed

lemma existingReleaseAsins_iff:
  "Some u \<in> existingReleaseAsins releases \<longleftrightarrow> u \<in> recordedIds releases"
  by (auto simp: existingReleaseAsins_def recordedIds_def)

lemma newBooks_isNewEntry:
  "newBooks (libraryAsins libraryBooks) (existingReleaseAsins releases) externalBooks
     = filter (isNewEntry libraryBooks releases) externalBooks"
  unfolding newBooks_def
  by (rule filter_cong)
     (auto simp: isNewEntry_def libraryAsins_iff existingReleaseAsins_iff Let_def split: option.splits)

lemma isNewEntry_inNeitherSet:
  "truthy (sb_asin entry) \<Longrightarrow> isNewEntry libraryBooks releases entry = inNeitherSet libraryBooks releases entry"
  by (auto simp: isNewEntry_def inNeitherSet_def truthy_def split: option.splits)

lemma newBooks_inNeitherSet:
  assumes "\<forall>entry \<in> set externalBooks. truthy (sb_asin entry)"
  shows "newBooks (libraryAsins libraryBooks) (existingReleaseAsins releases) externalBooks
     = filter (inNeitherSet libraryBooks releases) externalBooks"
  unfolding newBooks_isNewEntry using assms
  by (intro filter_cong refl) (simp add: isNewEntry_inNeitherSet)

text \<open>Every book the catalog client returns has an identifier.\<close>

lemma filterBoolean_set: "x \<in> set (filterBoolean xs) \<longleftrightarrow> Some x \<in> set xs"
  by (induction xs) (auto simp: filterBoolean_def split: option.splits)

lemma getSeriesBooks_truthy:
  "book \<in> set (fst (getSeriesBooks isValidASIN net asin region)) \<Longrightarrow> truthy (b_asin book)"
  by (auto simp: getSeriesBooks_def Let_def filterBoolean_set cleanResult_def
      dest: asinSearch_has_asin asinSearch_has_asin [OF sym] split: option.splits if_splits)

lemma getBooksBySeriesAsin_truthy:
  "book \<in> set (fst (getBooksBySeriesAsin isValidASIN net seriesAsin region)) \<Longrightarrow> truthy (b_asin book)"
  by (auto simp: getBooksBySeriesAsin_def Let_def dest: getSeriesBooks_truthy
      split: option.splits if_splits)

lemma getSeriesBooksByAsin_truthy:
  "entry \<in> set (fst (getSeriesBooksByAsin isValidASIN net seriesAsin region)) \<Longrightarrow> truthy (sb_asin entry)"
  by (auto simp: getSeriesBooksByAsin_def Let_def dest: getBooksBySeriesAsin_truthy
      split: option.splits if_splits)

lemma externalBooksOf_truthy:
  "\<forall>entry \<in> set (externalBooksOf isValidASIN w trackedSeries). truthy (sb_asin entry)"
  by (auto simp: externalBooksOf_def dest: getSeriesBooksByAsin_truthy)

lemma externalBooksOf_no_identifier:
  "\<not> truthy (ts_seriesAsin trackedSeries) \<Longrightarrow> externalBooksOf isValidASIN w trackedSeries = []"
  by (auto simp: externalBooksOf_def getSeriesBooksByAsin_def truthy_def split: option.splits)

lemma seriesFindByPk_Inr:
  "seriesFindByPk s w = (Inr r, w') \<Longrightarrow> (\<exists>rest. w' = w\<lparr>faults := rest\<rparr>) \<and> r = seriesTable w s"
  unfolding seriesFindByPk_def by (drule statement_read) auto

lemma getBooksExpandedWithLibraryItem_Inr:
  "getBooksExpandedWithLibraryItem s w = (Inr r, w')
     \<Longrightarrow> (\<exists>rest. w' = w\<lparr>faults := rest\<rparr>) \<and> r = libraryBooksOf w s"
  unfolding getBooksExpandedWithLibraryItem_def libraryBooksOf_def by (drule statement_read) auto

lemma releasesOfTrackedSeries_Inr:
  "releasesOfTrackedSeries i w = (Inr r, w')
     \<Longrightarrow> (\<exists>rest. w' = w\<lparr>faults := rest\<rparr>) \<and> r = releasesOf w i"
  unfolding releasesOfTrackedSeries_def releasesOf_def by (drule statement_read) auto

lemma libraryBooksOf_quiet [simp]:
  "libraryBooksOf (w\<lparr>faults := x\<rparr>) = libraryBooksOf w"
  "libraryBooksOf (w\<lparr>trace := y\<rparr>) = libraryBooksOf w"
  by (simp_all add: libraryBooksOf_def fun_eq_iff)

lemma releasesOf_quiet [simp]:
  "releasesOf (w\<lparr>faults := x\<rparr>) = releasesOf w"
  "releasesOf (w\<lparr>trace := y\<rparr>) = releasesOf w"
  by (simp_all add: releasesOf_def fun_eq_iff)

text \<open>What \<^verbatim>\<open>getNewReleasesForSeries\<close> resolves to, whatever the database does.\<close>

lemma getNewReleasesForSeries_resolved:
  assumes r: "getNewReleasesForSeries isValidASIN trackedSeries w = (Inr found, w')"
    and s: "ts_series trackedSeries \<noteq> None \<or> seriesTable w (ts_seriesId trackedSeries) \<noteq> None"
  shows "found = filter (isNewEntry (libraryBooksOf w (ts_seriesId trackedSeries))
                           (releasesOf w (ts_id trackedSeries)))
                   (externalBooksOf isValidASIN w trackedSeries)"
proof (cases "truthy (ts_seriesAsin trackedSeries)")
  case False
  with r have "found = []" by (simp add: getNewReleasesForSeries_def)
  with False show ?thesis by (simp add: externalBooksOf_no_identifier)
next
  case True
  let ?ext = "externalBooksOf isValidASIN w trackedSeries"
  let ?w1 = "w\<lparr>trace := trace w @ map Request
               (snd (getSeriesBooksByAsin isValidASIN (http w) (ts_seriesAsin trackedSeries)
                       (if truthy (ts_region trackedSeries) then ts_region trackedSeries
                        else Some ''us'')))\<rparr>"
  show ?thesis
  proof (cases "?ext = []")
    case e: True
    with r True have "found = []"
      by (simp add: getNewReleasesForSeries_def await_apply externalBooksOf_def)
    with e show ?thesis by simp
  next
    case e: False
    let ?rest = "\<lambda>w2. await (getBooksExpandedWithLibraryItem (ts_seriesId trackedSeries))
                          (\<lambda>libraryBooks.
                             await (releasesOfTrackedSeries (ts_id trackedSeries))
                               (\<lambda>releases.
                                  resolve (newBooks (libraryAsins libraryBooks)
                                             (existingReleaseAsins releases) ?ext))) w2"
    have tail: "found = filter (isNewEntry (libraryBooksOf w (ts_seriesId trackedSeries))
                           (releasesOf w (ts_id trackedSeries))) ?ext"
      if t: "?rest w2 = (Inr found, w')" and w2: "libraryBooksOf w2 = libraryBooksOf w"
        "releasesOf w2 = releasesOf w" for w2
    proof -
      obtain r3 w3 where s3: "getBooksExpandedWithLibraryItem (ts_seriesId trackedSeries) w2 = (r3, w3)"
        by (cases "getBooksExpandedWithLibraryItem (ts_seriesId trackedSeries) w2")
      show ?thesis
      proof (cases r3)
        case (Inl err)
        with t s3 show ?thesis by (simp add: await_apply)
      next
        case (Inr libraryBooks)
        from getBooksExpandedWithLibraryItem_Inr [OF s3 [unfolded Inr]] obtain rest3
          where w3: "w3 = w2\<lparr>faults := rest3\<rparr>"
            and lb: "libraryBooks = libraryBooksOf w2 (ts_seriesId trackedSeries)" by blast
        obtain r4 w4 where s4: "releasesOfTrackedSeries (ts_id trackedSeries) w3 = (r4, w4)"
          by (cases "releasesOfTrackedSeries (ts_id trackedSeries) w3")
        show ?thesis
        proof (cases r4)
          case (Inl err)
          with t s3 s4 Inr show ?thesis by (simp add: await_apply)
        next
          case r4: (Inr releases)
          from releasesOfTrackedSeries_Inr [OF s4 [unfolded r4]]
          have "releases = releasesOf w3 (ts_id trackedSeries)" by blast
          with w3 w2 have rl: "releases = releasesOf w (ts_id trackedSeries)" by simp
          from t s3 s4 Inr r4
          have "found = newBooks (libraryAsins libraryBooks) (existingReleaseAsins releases) ?ext"
            by (simp add: await_apply)
          with lb rl w2 show ?thesis by (simp add: newBooks_isNewEntry)
        qed
      qed
    qed
    show ?thesis
    proof (cases "ts_series trackedSeries")
      case (Some series)
      with r True e have "?rest ?w1 = (Inr found, w')"
        by (simp add: getNewReleasesForSeries_def await_apply externalBooksOf_def)
      then show ?thesis by (rule tail) simp_all
    next
      case None
      obtain r2 w2 where s2: "seriesFindByPk (ts_seriesId trackedSeries) ?w1 = (r2, w2)"
        by (cases "seriesFindByPk (ts_seriesId trackedSeries) ?w1")
      show ?thesis
      proof (cases r2)
        case (Inl err)
        with r True e None s2 show ?thesis
          by (simp add: getNewReleasesForSeries_def await_apply externalBooksOf_def)
      next
        case (Inr looked)
        from seriesFindByPk_Inr [OF s2 [unfolded Inr]] obtain rest2
          where w2: "w2 = ?w1\<lparr>faults := rest2\<rparr>"
            and lk: "looked = seriesTable ?w1 (ts_seriesId trackedSeries)" by blast
        from lk s None obtain series where "looked = Some series" by auto
        with r True e None s2 Inr have "?rest w2 = (Inr found, w')"
          by (simp add: getNewReleasesForSeries_def await_apply externalBooksOf_def)
        then show ?thesis by (rule tail) (simp_all add: w2)
      qed
    qed
  qed
qed

lemma getNewReleasesForSeries_filter:
  assumes f: "faults w = []"
    and s: "ts_series trackedSeries \<noteq> None \<or> seriesTable w (ts_seriesId trackedSeries) \<noteq> None"
  shows "fst (getNewReleasesForSeries isValidASIN trackedSeries w)
     = Inr (filter (isNewEntry (libraryBooksOf w (ts_seriesId trackedSeries))
                      (releasesOf w (ts_id trackedSeries)))
              (externalBooksOf isValidASIN w trackedSeries))"
proof (cases "truthy (ts_seriesAsin trackedSeries)")
  case True
  with assms show ?thesis
    by (auto simp: getNewReleasesForSeries_def externalBooksOf_def libraryBooksOf_def releasesOf_def
        seriesFindByPk_def getBooksExpandedWithLibraryItem_def releasesOfTrackedSeries_def
        newBooks_isNewEntry await_apply split: option.splits)
next
  case False
  then show ?thesis
    by (simp add: getNewReleasesForSeries_def externalBooksOf_no_identifier)
qed

lemma newBooks_truthy: "book \<in> set (newBooks owned recorded externalBooks) \<Longrightarrow> truthy (sb_asin book)"
  by (auto simp: newBooks_def split: option.splits if_splits)

lemma returns_getNewReleasesForSeries:
  "returns (\<lambda>found. \<forall>book \<in> set found. truthy (sb_asin book))
     (getNewReleasesForSeries isValidASIN trackedSeries)"
  unfolding getNewReleasesForSeries_def
  by (auto intro!: returns_await returns_resolve returns_case_option dest: newBooks_truthy)

lemma maintains_checkSeriesForNewReleases:
  assumes "\<And>tracked book. truthy (sb_asin book) \<Longrightarrow> maintains J (createNewRelease (releaseDataOf tracked book))"
  shows "maintains J (checkSeriesForNewReleases isValidASIN t)"
proof -
  have tail: "maintains J (await (updateLastChecked tracked)
                                (\<lambda>_ w.
                                   (Inr createdReleases,
                                    if createdReleases \<noteq> []
                                    then emitNewReleasesUpdate (ts_userId tracked)
                                           (notifyNewReleases tracked createdReleases w)
                                    else w)))" for tracked and createdReleases :: "newRelease list"
  proof (rule maintains_keeps, rule keeps_await)
    show "keeps releaseStore (updateLastChecked tracked)" by auto
  next
    fix x :: trackedInstance
    show "keeps releaseStore (\<lambda>w.
                                   (Inr createdReleases,
                                    if createdReleases \<noteq> []
                                    then emitNewReleasesUpdate (ts_userId tracked)
                                           (notifyNewReleases tracked createdReleases w)
                                    else w))"
      by (simp add: keeps_def)
  qed
  have found: "maintains J (await (createReleases tracked (seriesNameOf t) found [])
                           (\<lambda>createdReleases.
                              await (updateLastChecked tracked)
                                (\<lambda>_ w.
                                   (Inr createdReleases,
                                    if createdReleases \<noteq> []
                                    then emitNewReleasesUpdate (ts_userId tracked)
                                           (notifyNewReleases tracked createdReleases w)
                                    else w))))"
    if "\<forall>book \<in> set found. truthy (sb_asin book)" for tracked found
    by (rule maintains_await [OF returns_True maintains_createReleases tail]) (use that assms in auto)
  have body: "maintains J (await (resolveSeriesAsin isValidASIN (seriesNameOf t) t)
             (\<lambda>resolved.
                case resolved of
                  None \<Rightarrow> resolve []
                | Some tracked \<Rightarrow>
                    await (getNewReleasesForSeries isValidASIN tracked)
                      (\<lambda>found.
                         await (createReleases tracked (seriesNameOf t) found [])
                           (\<lambda>createdReleases.
                              await (updateLastChecked tracked)
                                (\<lambda>_ w.
                                   (Inr createdReleases,
                                    if createdReleases \<noteq> []
                                    then emitNewReleasesUpdate (ts_userId tracked)
                                           (notifyNewReleases tracked createdReleases w)
                                    else w))))))"
  proof (rule maintains_await [OF returns_True])
    show "maintains J (resolveSeriesAsin isValidASIN (seriesNameOf t) t)"
      by (rule maintains_keeps) auto
  next
    fix resolved :: "trackedInstance option"
    show "maintains J (case resolved of
                  None \<Rightarrow> resolve []
                | Some tracked \<Rightarrow>
                    await (getNewReleasesForSeries isValidASIN tracked)
                      (\<lambda>found.
                         await (createReleases tracked (seriesNameOf t) found [])
                           (\<lambda>createdReleases.
                              await (updateLastChecked tracked)
                                (\<lambda>_ w.
                                   (Inr createdReleases,
                                    if createdReleases \<noteq> []
                                    then emitNewReleasesUpdate (ts_userId tracked)
                                           (notifyNewReleases tracked createdReleases w)
                                    else w)))))"
    proof (cases resolved)
      case None
      then show ?thesis by (simp add: maintains_def)
    next
      case (Some tracked)
      have "maintains J (getNewReleasesForSeries isValidASIN tracked)"
        by (rule maintains_keeps) auto
      from maintains_await [OF returns_getNewReleasesForSeries this found] Some
      show ?thesis by simp
    qed
  qed
  have handler: "maintains J (\<lambda>w. await (updateLastChecked t) (\<lambda>_. resolve [])
               (logger ERROR (ErrorCheckingSeries (seriesNameOf t) error) w))" for error
    by (rule maintains_keeps, rule keeps_after_logger) auto
  from maintains_tryCatch [OF body handler]
  show ?thesis unfolding checkSeriesForNewReleases_def maintains_def by simp
qed

lemma example_series_entries:
  "getSeriesBooksByAsin validASIN exampleNetwork (Some ''b0series01'') (Some ''us'') =
     ([(exampleEntry ''B0BOOK0001'' ''One'')\<lparr>sb_sequence := Some ''1''\<rparr>,
       (exampleEntry ''B0BOOK0002'' ''Two'')\<lparr>sb_sequence := Some ''2''\<rparr>],
      [''https://api.audible.com/1.0/catalog/products/B0SERIES01?response_groups=relationships'',
       ''https://api.audible.com/1.0/catalog/products/B0BOOK0001/sims?similarity_type=InTheSameSeries&num_results=50'',
       ''https://api.audnex.us/books/B0BOOK0002?region=us'',
       ''https://api.audnex.us/books/B0BOOK0003?region=us'',
       ''https://api.audnex.us/books/B0BOOK0001?region=us''])"
proof -
  have "validASIN (toUpperCase ''b0series01'')"
    by (simp add: validASIN_def toUpperCase_def upperChar_def)
  then show ?thesis
    by (simp add: getSeriesBooksByAsin_def example_series_books exampleBook_def exampleEntry_def)
qed

text \<open>
  C1. For a tracked series whose series exists, \<^verbatim>\<open>getNewReleasesForSeries\<close> resolves to
  exactly those entries of the catalog client whose identifier, in upper case, is neither
  among the upper-cased identifiers of the library books of the series nor among those of
  the releases recorded for the tracked series, in the order in which the client returned
  them. It resolves to nothing else, whatever the database does meanwhile, and it resolves
  when the database answers. Every entry the client returns has an identifier; on every
  list of such entries, with every list of library books and every list of recorded
  releases, the filter keeps the entries whose identifier is in neither set.
\<close>

theorem getNewReleasesForSeries_diff:
  "((\<forall>entry \<in> set externalBooks. truthy (sb_asin entry))
      \<longrightarrow> newBooks (libraryAsins libraryBooks) (existingReleaseAsins releases) externalBooks
            = filter (inNeitherSet libraryBooks releases) externalBooks)
   \<and> (\<forall>entry \<in> set (externalBooksOf isValidASIN w trackedSeries). truthy (sb_asin entry))
   \<and> (ts_series trackedSeries \<noteq> None \<or> seriesTable w (ts_seriesId trackedSeries) \<noteq> None
      \<longrightarrow> (\<forall>found w'. getNewReleasesForSeries isValidASIN trackedSeries w = (Inr found, w')
              \<longrightarrow> found = filter (inNeitherSet (libraryBooksOf w (ts_seriesId trackedSeries))
                                       (releasesOf w (ts_id trackedSeries)))
                               (externalBooksOf isValidASIN w trackedSeries))
          \<and> (faults w = []
              \<longrightarrow> fst (getNewReleasesForSeries isValidASIN trackedSeries w)
                    = Inr (filter (inNeitherSet (libraryBooksOf w (ts_seriesId trackedSeries))
                                     (releasesOf w (ts_id trackedSeries)))
                             (externalBooksOf isValidASIN w trackedSeries))))"
proof -
  have same: "filter (isNewEntry lb rl) (externalBooksOf isValidASIN w trackedSeries)
      = filter (inNeitherSet lb rl) (externalBooksOf isValidASIN w trackedSeries)" for lb rl
    using externalBooksOf_truthy [of isValidASIN w trackedSeries]
    by (intro filter_cong refl) (simp add: isNewEntry_inNeitherSet)
  show ?thesis
  proof (intro conjI impI allI)
    assume "\<forall>entry \<in> set externalBooks. truthy (sb_asin entry)"
    then show "newBooks (libraryAsins libraryBooks) (existingReleaseAsins releases) externalBooks
            = filter (inNeitherSet libraryBooks releases) externalBooks"
      by (rule newBooks_inNeitherSet)
  next
    show "\<forall>entry \<in> set (externalBooksOf isValidASIN w trackedSeries). truthy (sb_asin entry)"
      by (rule externalBooksOf_truthy)
  next
    fix found w'
    assume "ts_series trackedSeries \<noteq> None \<or> seriesTable w (ts_seriesId trackedSeries) \<noteq> None"
      and "getNewReleasesForSeries isValidASIN trackedSeries w = (Inr found, w')"
    from getNewReleasesForSeries_resolved [OF this(2) this(1)]
    show "found = filter (inNeitherSet (libraryBooksOf w (ts_seriesId trackedSeries))
                                       (releasesOf w (ts_id trackedSeries)))
                               (externalBooksOf isValidASIN w trackedSeries)"
      by (simp add: same)
  next
    assume "ts_series trackedSeries \<noteq> None \<or> seriesTable w (ts_seriesId trackedSeries) \<noteq> None"
      and "faults w = []"
    from getNewReleasesForSeries_filter [OF this(2) this(1)]
    show "fst (getNewReleasesForSeries isValidASIN trackedSeries w)
                    = Inr (filter (inNeitherSet (libraryBooksOf w (ts_seriesId trackedSeries))
                                     (releasesOf w (ts_id trackedSeries)))
                             (externalBooksOf isValidASIN w trackedSeries))"
      by (simp add: same)
  qed
qed

theorem getNewReleasesForSeries_diff_witness:
  "newBooks (libraryAsins [exampleLibraryBook ''b0book0001'']) (existingReleaseAsins [])
       [exampleEntry ''B0BOOK0001'' ''One'', exampleEntry ''B0BOOK0002'' ''Two'']
     = [exampleEntry ''B0BOOK0002'' ''Two'']
   \<and> fst (getNewReleasesForSeries validASIN (modelInstance exampleTracked None) exampleWorld)
     = Inr [(exampleEntry ''B0BOOK0002'' ''Two'')\<lparr>sb_sequence := Some ''2''\<rparr>]"
proof -
  have t: "\<forall>entry \<in> set [exampleEntry ''B0BOOK0001'' ''One'', exampleEntry ''B0BOOK0002'' ''Two''].
             truthy (sb_asin entry)"
    by (simp add: exampleEntry_def)
  from getNewReleasesForSeries_diff [where libraryBooks = "[exampleLibraryBook ''b0book0001'']"
      and releases = "[]"
      and externalBooks = "[exampleEntry ''B0BOOK0001'' ''One'', exampleEntry ''B0BOOK0002'' ''Two'']"] t
  have "newBooks (libraryAsins [exampleLibraryBook ''b0book0001'']) (existingReleaseAsins [])
       [exampleEntry ''B0BOOK0001'' ''One'', exampleEntry ''B0BOOK0002'' ''Two'']
     = filter (inNeitherSet [exampleLibraryBook ''b0book0001''] [])
         [exampleEntry ''B0BOOK0001'' ''One'', exampleEntry ''B0BOOK0002'' ''Two'']"
    by blast
  then have "newBooks (libraryAsins [exampleLibraryBook ''b0book0001'']) (existingReleaseAsins [])
       [exampleEntry ''B0BOOK0001'' ''One'', exampleEntry ''B0BOOK0002'' ''Two'']
     = [exampleEntry ''B0BOOK0002'' ''Two'']"
    by (simp add: inNeitherSet_def ownedIds_def recordedIds_def exampleEntry_def exampleLibraryBook_def
        toUpperCase_def upperChar_def)
  moreover
  have h: "ts_series (modelInstance exampleTracked None) \<noteq> None
            \<or> seriesTable exampleWorld (ts_seriesId (modelInstance exampleTracked None)) \<noteq> None"
    and f: "faults exampleWorld = []"
    by (simp_all add: exampleWorld_def exampleTracked_def modelInstance_def trackedSeries.defs
        trackedInstance.defs)
  from getNewReleasesForSeries_diff [where w = exampleWorld
      and trackedSeries = "modelInstance exampleTracked None" and isValidASIN = validASIN] h f
  have "fst (getNewReleasesForSeries validASIN (modelInstance exampleTracked None) exampleWorld)
            = Inr (filter (inNeitherSet (libraryBooksOf exampleWorld (ts_seriesId (modelInstance exampleTracked None)))
                             (releasesOf exampleWorld (ts_id (modelInstance exampleTracked None))))
                     (externalBooksOf validASIN exampleWorld (modelInstance exampleTracked None)))"
    by blast
  then have "fst (getNewReleasesForSeries validASIN (modelInstance exampleTracked None) exampleWorld)
     = Inr [(exampleEntry ''B0BOOK0002'' ''Two'')\<lparr>sb_sequence := Some ''2''\<rparr>]"
    by (simp add: externalBooksOf_def libraryBooksOf_def releasesOf_def exampleWorld_def
        exampleTracked_def modelInstance_def trackedSeries.defs trackedInstance.defs
        example_series_entries exampleSeries_def inNeitherSet_def ownedIds_def recordedIds_def
        exampleEntry_def exampleLibraryBook_def toUpperCase_def upperChar_def)
  ultimately show ?thesis by blast
qed

text \<open>
  C10. An external entry whose identifier is missing or empty is never among the new
  books, whatever the owned and the recorded identifiers are; what
  \<^verbatim>\<open>getNewReleasesForSeries\<close> resolves to has no such entry; and a check of a tracked
  series leaves no release with an empty identifier in the table that was not there before.
\<close>

theorem entries_without_identifier_excluded:
  "(\<not> truthy (sb_asin entry) \<longrightarrow> entry \<notin> set (newBooks owned recorded externalBooks))
   \<and> (fst (getNewReleasesForSeries isValidASIN trackedSeries w) = Inr found
        \<longrightarrow> (\<forall>e \<in> set found. truthy (sb_asin e)))
   \<and> (\<forall>row \<in> set (newReleaseTable (snd (checkSeriesForNewReleases isValidASIN trackedSeries w))).
          row \<in> set (newReleaseTable w) \<or> nr_asin row \<noteq> [])"
proof (intro conjI impI)
  assume "\<not> truthy (sb_asin entry)"
  then show "entry \<notin> set (newBooks owned recorded externalBooks)"
    using newBooks_truthy by blast
next
  assume "fst (getNewReleasesForSeries isValidASIN trackedSeries w) = Inr found"
  then show "\<forall>e \<in> set found. truthy (sb_asin e)"
    using returns_getNewReleasesForSeries [of isValidASIN trackedSeries]
    unfolding returns_def by (metis prod.collapse)
next
  define J where "J = (\<lambda>store :: newRelease list \<times> schema.
      \<forall>row \<in> set (fst store). row \<in> set (newReleaseTable w) \<or> nr_asin row \<noteq> [])"
  have step: "maintains J (createNewRelease (releaseDataOf tracked book))"
    if "truthy (sb_asin book)" for tracked book
    unfolding maintains_def
  proof (intro allI impI)
    fix v
    assume j: "J (releaseStore v)"
    obtain r v' where c: "createNewRelease (releaseDataOf tracked book) v = (r, v')"
      by (cases "createNewRelease (releaseDataOf tracked book) v")
    from createNewRelease_cases [OF c] that j
    have "J (releaseStore v')"
      by (auto simp: J_def releaseStore_def releaseDataOf_def)
    with c show "J (releaseStore (snd (createNewRelease (releaseDataOf tracked book) v)))" by simp
  qed
  have "J (releaseStore w)" by (simp add: J_def releaseStore_def)
  with maintains_checkSeriesForNewReleases [where J = J and isValidASIN = isValidASIN
      and t = trackedSeries, OF step]
  have "J (releaseStore (snd (checkSeriesForNewReleases isValidASIN trackedSeries w)))"
    by (simp add: maintains_def)
  then show "\<forall>row \<in> set (newReleaseTable (snd (checkSeriesForNewReleases isValidASIN trackedSeries w))).
          row \<in> set (newReleaseTable w) \<or> nr_asin row \<noteq> []"
    by (simp add: J_def releaseStore_def)
qed

theorem entries_without_identifier_excluded_witness:
  "\<not> truthy (sb_asin (exampleEntry [] ''Untitled''))
   \<and> exampleEntry [] ''Untitled''
        \<notin> set (newBooks {} {} [exampleEntry [] ''Untitled'', exampleEntry ''B0BOOK0002'' ''Two''])"
proof -
  have h: "\<not> truthy (sb_asin (exampleEntry [] ''Untitled''))" by (simp add: exampleEntry_def)
  with entries_without_identifier_excluded [where entry = "exampleEntry [] ''Untitled''"
      and owned = "{}" and recorded = "{}"
      and externalBooks = "[exampleEntry [] ''Untitled'', exampleEntry ''B0BOOK0002'' ''Two'']"]
  show ?thesis by blast
qed

section \<open>One release per tracked series and identifier\<close>

lemma up_releaseIndex: "sch ''newReleases'' = None \<Longrightarrow> releaseIndex (up sch)"
  by (simp add: up_def releaseIndex_def hasUniqueIndex_def Let_def)

lemma releaseIndex_table: "releaseIndex sch \<Longrightarrow> sch ''newReleases'' \<noteq> None"
  by (auto simp: releaseIndex_def hasUniqueIndex_def split: option.splits)

lemma maintains_unique_createNewRelease: "maintains uniqueReleases (createNewRelease data)"
  unfolding maintains_def
proof (intro allI impI)
  fix w
  assume u: "uniqueReleases (releaseStore w)"
  obtain r w' where c: "createNewRelease data w = (r, w')" by (cases "createNewRelease data w")
  from createNewRelease_cases [OF c] u have "uniqueReleases (releaseStore w')"
    by (fastforce simp: uniqueReleases_def releaseStore_def releaseIndex_def releaseKey_def list_ex_iff)
  with c show "uniqueReleases (releaseStore (snd (createNewRelease data w)))" by simp
qed

lemma attempts_unique: "uniqueReleases (releaseStore w) \<Longrightarrow> uniqueReleases (releaseStore (attempts ds w))"
proof (induction ds arbitrary: w)
  case Nil
  then show ?case by simp
next
  case (Cons data rest)
  from Cons.prems maintains_unique_createNewRelease [of data]
  have "uniqueReleases (releaseStore (snd (createNewRelease data w)))" by (simp add: maintains_def)
  from Cons.IH [OF this] show ?case by simp
qed

lemma maintains_checkEach:
  assumes "\<And>tracked book. truthy (sb_asin book) \<Longrightarrow> maintains J (createNewRelease (releaseDataOf tracked book))"
  shows "maintains J (checkEach isValidASIN ts)"
proof -
  have "J (releaseStore w) \<Longrightarrow> J (releaseStore (snd (checkEach isValidASIN ts w)))" for w
  proof (induction ts arbitrary: w)
    case Nil
    then show ?case by simp
  next
    case (Cons t rest)
    obtain r w1 where c: "checkSeriesForNewReleases isValidASIN t w = (r, w1)"
      by (cases "checkSeriesForNewReleases isValidASIN t w")
    from maintains_checkSeriesForNewReleases [where J = J and isValidASIN = isValidASIN and t = t, OF assms] Cons.prems c
    have j1: "J (releaseStore w1)" by (metis maintains_def snd_conv)
    show ?case
    proof (cases r)
      case (Inl e)
      with c j1 show ?thesis by simp
    next
      case (Inr x)
      have "J (releaseStore (delay 2000 w1))" using j1 by simp
      from Cons.IH [OF this] c Inr show ?thesis by simp
    qed
  qed
  then show ?thesis by (simp add: maintains_def)
qed

lemma sweep_maintains:
  assumes "\<And>tracked book. truthy (sb_asin book) \<Longrightarrow> maintains J (createNewRelease (releaseDataOf tracked book))"
    and j: "J (releaseStore w)"
  shows "J (releaseStore (snd (sweep isValidASIN w)))"
proof -
  have k: "maintains J (\<lambda>w1. case checkEach isValidASIN due (logger INFO (FoundSeriesDue (length due)) w1) of
                  (Inl e, w2) \<Rightarrow> (Inl e, w2)
                | (Inr u, w2) \<Rightarrow> (Inr (), logger INFO ScheduledCheckCompleted w2))" for due
    unfolding maintains_def
  proof (intro allI impI)
    fix w1
    assume "J (releaseStore w1)"
    then have a: "J (releaseStore (logger INFO (FoundSeriesDue (length due)) w1))" by simp
    obtain r w2 where c: "checkEach isValidASIN due (logger INFO (FoundSeriesDue (length due)) w1) = (r, w2)"
      by (cases "checkEach isValidASIN due (logger INFO (FoundSeriesDue (length due)) w1)")
    from maintains_checkEach [where J = J and isValidASIN = isValidASIN and ts = due, OF assms(1)] a c
    have "J (releaseStore w2)" by (metis maintains_def snd_conv)
    with c show "J (releaseStore (snd (case checkEach isValidASIN due (logger INFO (FoundSeriesDue (length due)) w1) of
                  (Inl e, w2) \<Rightarrow> (Inl e, w2)
                | (Inr u, w2) \<Rightarrow> (Inr (), logger INFO ScheduledCheckCompleted w2))))"
      by (cases r) simp_all
  qed
  have "maintains J (getDueForCheck (checkThreshold w) 100)"
    by (rule maintains_keeps) auto
  from maintains_await [OF returns_True this k] j
  show ?thesis by (simp add: sweep_def maintains_def)
qed

lemma releaseStore_isRunning [simp]: "releaseStore (w\<lparr>isRunning := b\<rparr>) = releaseStore w"
  by (simp add: releaseStore_def)

lemma runScheduledCheck_maintains:
  assumes "\<And>tracked book. truthy (sb_asin book) \<Longrightarrow> maintains J (createNewRelease (releaseDataOf tracked book))"
    and j: "J (releaseStore w)"
  shows "J (releaseStore (runScheduledCheck isValidASIN w))"
proof (cases "isRunning w")
  case True
  with j show ?thesis by (simp add: runScheduledCheck_def)
next
  case False
  obtain r w1 where c: "sweep isValidASIN (logger INFO StartingScheduledCheck (w\<lparr>isRunning := True\<rparr>)) = (r, w1)"
    by (cases "sweep isValidASIN (logger INFO StartingScheduledCheck (w\<lparr>isRunning := True\<rparr>))")
  have "J (releaseStore (logger INFO StartingScheduledCheck (w\<lparr>isRunning := True\<rparr>)))" using j by simp
  from sweep_maintains [where J = J and isValidASIN = isValidASIN, OF assms(1) this] c
  have "J (releaseStore w1)" by simp
  with c False show ?thesis by (cases r) (simp_all add: runScheduledCheck_def)
qed

lemma maintains_manualCheck:
  assumes "\<And>tracked book. truthy (sb_asin book) \<Longrightarrow> maintains J (createNewRelease (releaseDataOf tracked book))"
  shows "maintains J (manualCheck isValidASIN i)"
proof -
  have a: "maintains J (trackedSeriesFindByPk i)" by (rule maintains_keeps) auto
  have b: "maintains J (case found of
            None \<Rightarrow> (\<lambda>w. (Inr [], logger WARN (TrackedSeriesNotFound i) w))
          | Some trackedSeries \<Rightarrow> checkSeriesForNewReleases isValidASIN trackedSeries)" for found
  proof (cases found)
    case None
    then show ?thesis by (simp add: maintains_def)
  next
    case (Some t)
    with maintains_checkSeriesForNewReleases [where J = J and isValidASIN = isValidASIN and t = t, OF assms] show ?thesis by simp
  qed
  show ?thesis unfolding manualCheck_def
    by (rule maintains_await [OF returns_True a b])
qed

text \<open>
  Where the table of releases has the unique index of the migration: an attempt to
  create a release for a tracked series and an identifier that has a row already is
  rejected and adds no row, and the loop of the check takes the rejection as done: it logs
  it at debug level, not as an error, adds nothing to the created releases and goes on.
  The rows stay pairwise different in (trackedSeriesId, asin) under every single attempt,
  under any sequence of attempts in whatever order they reach the database, under the
  check of a series, under a manual check and under a sweep. The migration creates the
  index when it creates the table.
\<close>

lemma one_release_per_pair_indexed:
  assumes "releaseIndex (tables w)"
  shows "(list_ex (\<lambda>row. nr_trackedSeriesId row = ts_id trackedSeries \<and> nr_asin row = asin)
             (newReleaseTable w) \<and> sb_asin book = Some asin
          \<longrightarrow> (\<exists>err w'. createNewRelease (releaseDataOf trackedSeries book) w = (Inl err, w')
                  \<and> newReleaseTable w' = newReleaseTable w)
              \<and> (faults w = [] \<and> sb_title book \<noteq> None
                  \<longrightarrow> createNewRelease (releaseDataOf trackedSeries book) w = (Inl UniqueConstraintError, w)
                      \<and> createReleases trackedSeries seriesName (book # rest) createdReleases w
                          = createReleases trackedSeries seriesName rest createdReleases
                              (logger DEBUG (ReleaseAlreadyExists (Some asin)) w)))
     \<and> (distinct (map releaseKey (newReleaseTable w))
          \<longrightarrow> distinct (map releaseKey (newReleaseTable (snd (createNewRelease data w))))
              \<and> distinct (map releaseKey (newReleaseTable (attempts others w)))
              \<and> distinct (map releaseKey
                    (newReleaseTable (snd (checkSeriesForNewReleases isValidASIN trackedSeries w))))
              \<and> distinct (map releaseKey (newReleaseTable (snd (manualCheck isValidASIN i w))))
              \<and> distinct (map releaseKey (newReleaseTable (runScheduledCheck isValidASIN w))))
     \<and> (sch ''newReleases'' = None \<longrightarrow> releaseIndex (up sch))"
proof (intro conjI impI)
  assume h: "list_ex (\<lambda>row. nr_trackedSeriesId row = ts_id trackedSeries \<and> nr_asin row = asin)
             (newReleaseTable w) \<and> sb_asin book = Some asin"
  obtain r w' where c: "createNewRelease (releaseDataOf trackedSeries book) w = (r, w')"
    by (cases "createNewRelease (releaseDataOf trackedSeries book) w")
  from createNewRelease_cases [OF c] h assms
  have "\<exists>e. r = Inl e \<and> releaseStore w' = releaseStore w"
    by (auto simp: releaseDataOf_def releaseIndex_def list_ex_iff)
  with c show "\<exists>err w'. createNewRelease (releaseDataOf trackedSeries book) w = (Inl err, w')
                  \<and> newReleaseTable w' = newReleaseTable w"
    by (auto simp: releaseStore_def)
next
  assume h: "list_ex (\<lambda>row. nr_trackedSeriesId row = ts_id trackedSeries \<and> nr_asin row = asin)
             (newReleaseTable w) \<and> sb_asin book = Some asin"
    and f: "faults w = [] \<and> sb_title book \<noteq> None"
  from assms have t: "tables w ''newReleases'' \<noteq> None" by (rule releaseIndex_table)
  from h f t assms
  show u: "createNewRelease (releaseDataOf trackedSeries book) w = (Inl UniqueConstraintError, w)"
    by (auto simp: createNewRelease_def insertNewRelease_def releaseDataOf_def releaseIndex_def)
  from h show "createReleases trackedSeries seriesName (book # rest) createdReleases w
                          = createReleases trackedSeries seriesName rest createdReleases
                              (logger DEBUG (ReleaseAlreadyExists (Some asin)) w)"
    by (simp add: u)
next
  assume d: "distinct (map releaseKey (newReleaseTable w))"
  with assms have u: "uniqueReleases (releaseStore w)"
    by (simp add: uniqueReleases_def releaseStore_def)
  have step: "\<And>tracked book. truthy (sb_asin book)
      \<Longrightarrow> maintains uniqueReleases (createNewRelease (releaseDataOf tracked book))"
    by (rule maintains_unique_createNewRelease)
  from u maintains_unique_createNewRelease [of data]
  show "distinct (map releaseKey (newReleaseTable (snd (createNewRelease data w))))"
    by (simp add: maintains_def uniqueReleases_def releaseStore_def)
  from attempts_unique [OF u]
  show "distinct (map releaseKey (newReleaseTable (attempts others w)))"
    by (simp add: uniqueReleases_def releaseStore_def)
  from u maintains_checkSeriesForNewReleases [where J = uniqueReleases and isValidASIN = isValidASIN
      and t = trackedSeries, OF step]
  show "distinct (map releaseKey
                    (newReleaseTable (snd (checkSeriesForNewReleases isValidASIN trackedSeries w))))"
    by (simp add: maintains_def uniqueReleases_def releaseStore_def)
  from u maintains_manualCheck [where J = uniqueReleases and isValidASIN = isValidASIN and i = i, OF step]
  show "distinct (map releaseKey (newReleaseTable (snd (manualCheck isValidASIN i w))))"
    by (simp add: maintains_def uniqueReleases_def releaseStore_def)
  from runScheduledCheck_maintains [where J = uniqueReleases and isValidASIN = isValidASIN, OF step u]
  show "distinct (map releaseKey (newReleaseTable (runScheduledCheck isValidASIN w)))"
    by (simp add: uniqueReleases_def releaseStore_def)
next
  assume "sch ''newReleases'' = None"
  then show "releaseIndex (up sch)" by (rule up_releaseIndex)
qed

lemma one_release_per_pair_indexed_example:
  "releaseIndex (tables exampleWorldWithRelease)
   \<and> createNewRelease
        (releaseDataOf (modelInstance exampleTracked None) (exampleEntry ''B0BOOK0002'' ''Two''))
        exampleWorldWithRelease
       = (Inl UniqueConstraintError, exampleWorldWithRelease)
   \<and> createReleases (modelInstance exampleTracked None) ''Saga''
        [exampleEntry ''B0BOOK0002'' ''Two''] [] exampleWorldWithRelease
       = (Inr [], logger DEBUG (ReleaseAlreadyExists (Some ''B0BOOK0002'')) exampleWorldWithRelease)
   \<and> distinct (map releaseKey (newReleaseTable
        (attempts [releaseDataOf (modelInstance exampleTracked None) (exampleEntry ''B0BOOK0002'' ''Two''),
                   releaseDataOf (modelInstance exampleTracked None) (exampleEntry ''B0BOOK0002'' ''Two'')]
           exampleWorldWithRelease)))"
proof -
  have i: "releaseIndex (tables exampleWorldWithRelease)"
    by (simp add: exampleWorldWithRelease_def exampleWorld_def up_releaseIndex)
  have h: "list_ex (\<lambda>row. nr_trackedSeriesId row = ts_id (modelInstance exampleTracked None)
                        \<and> nr_asin row = ''B0BOOK0002'')
             (newReleaseTable exampleWorldWithRelease)
           \<and> sb_asin (exampleEntry ''B0BOOK0002'' ''Two'') = Some ''B0BOOK0002''"
    and f: "faults exampleWorldWithRelease = [] \<and> sb_title (exampleEntry ''B0BOOK0002'' ''Two'') \<noteq> None"
    and d: "distinct (map releaseKey (newReleaseTable exampleWorldWithRelease))"
    by (simp_all add: exampleWorldWithRelease_def exampleWorld_def exampleRelease_def exampleEntry_def
        exampleTracked_def modelInstance_def trackedSeries.defs trackedInstance.defs)
  from one_release_per_pair_indexed [OF i, where trackedSeries = "modelInstance exampleTracked None"
      and asin = "''B0BOOK0002''" and book = "exampleEntry ''B0BOOK0002'' ''Two''"
      and seriesName = "''Saga''" and rest = "[]" and createdReleases = "[]"
      and others = "[releaseDataOf (modelInstance exampleTracked None) (exampleEntry ''B0BOOK0002'' ''Two''),
                     releaseDataOf (modelInstance exampleTracked None) (exampleEntry ''B0BOOK0002'' ''Two'')]"]
    h f d i
  show ?thesis by simp
qed

text \<open>
  C2. In a database whose tables were created from the models, the table of releases has
  no unique index: \<^verbatim>\<open>NewRelease.init\<close> declares none, where \<^verbatim>\<open>TrackedSeries.init\<close>
  declares the one of its table, and the migration leaves a table that exists as it is.
  There an attempt to create a release for a tracked series and an identifier that has a
  row already succeeds and adds a second row of the pair; and one check of a series whose
  similarity set lists a book twice leaves two rows of one pair, where with the index of
  the migration it leaves one.
\<close>

theorem second_release_without_index:
  "up (sync noTables) ''newReleases'' = Some newReleaseIndexes
   \<and> \<not> hasUniqueIndex (up (sync noTables)) ''newReleases'' [''trackedSeriesId'', ''asin'']
   \<and> hasUniqueIndex (up (sync noTables)) ''trackedSeries'' [''userId'', ''seriesId'']
   \<and> hasUniqueIndex (up noTables) ''newReleases'' [''trackedSeriesId'', ''asin'']
   \<and> map releaseKey (newReleaseTable exampleUnindexed) = [(1, ''B0BOOK0002'')]
   \<and> createNewRelease
         (releaseDataOf (modelInstance exampleTracked None) (exampleEntry ''B0BOOK0002'' ''Two''))
         exampleUnindexed
       = (Inr (exampleRelease 100 ''B0BOOK0002'' None),
          exampleUnindexed\<lparr>nextId := 101,
            newReleaseTable := [exampleRelease 50 ''B0BOOK0002'' (Some ''2''),
                                exampleRelease 100 ''B0BOOK0002'' None]\<rparr>)
   \<and> map releaseKey (newReleaseTable (snd (manualCheck validASIN 1 exampleUnindexedTwice)))
       = [(1, ''B0BOOK0002''), (1, ''B0BOOK0002'')]
   \<and> map releaseKey (newReleaseTable (snd (manualCheck validASIN 1
           (exampleWorld\<lparr>http := exampleNetworkTwice, tables := up noTables\<rparr>))))
       = [(1, ''B0BOOK0002'')]"
proof -
  have a: "up (sync noTables) ''newReleases'' = Some newReleaseIndexes"
    by (simp add: up_def sync_def syncModel_def Let_def)
  have b: "\<not> hasUniqueIndex (up (sync noTables)) ''newReleases'' [''trackedSeriesId'', ''asin'']"
    by (simp add: hasUniqueIndex_def a newReleaseIndexes_def)
  have c: "hasUniqueIndex (up (sync noTables)) ''trackedSeries'' [''userId'', ''seriesId'']"
    by (simp add: hasUniqueIndex_def up_def sync_def syncModel_def Let_def trackedSeriesIndexes_def)
  have d: "hasUniqueIndex (up noTables) ''newReleases'' [''trackedSeriesId'', ''asin'']"
    by (simp add: hasUniqueIndex_def up_def Let_def)
  have e: "map releaseKey (newReleaseTable exampleUnindexed) = [(1, ''B0BOOK0002'')]"
    by (simp add: exampleUnindexed_def exampleWorldWithRelease_def exampleRelease_def releaseKey_def)
  have f: "createNewRelease
         (releaseDataOf (modelInstance exampleTracked None) (exampleEntry ''B0BOOK0002'' ''Two''))
         exampleUnindexed
       = (Inr (exampleRelease 100 ''B0BOOK0002'' None),
          exampleUnindexed\<lparr>nextId := 101,
            newReleaseTable := [exampleRelease 50 ''B0BOOK0002'' (Some ''2''),
                                exampleRelease 100 ''B0BOOK0002'' None]\<rparr>)"
    using a b
    by (simp add: createNewRelease_def insertNewRelease_def releaseDataOf_def exampleEntry_def
        exampleUnindexed_def exampleWorldWithRelease_def exampleWorld_def exampleTracked_def
        exampleRelease_def orNull_def Let_def)
  have g: "map releaseKey (newReleaseTable (snd (manualCheck validASIN 1 exampleUnindexedTwice)))
       = [(1, ''B0BOOK0002''), (1, ''B0BOOK0002'')]"
    by code_simp
  have h: "map releaseKey (newReleaseTable (snd (manualCheck validASIN 1
           (exampleWorld\<lparr>http := exampleNetworkTwice, tables := up noTables\<rparr>))))
       = [(1, ''B0BOOK0002'')]"
    by code_simp
  from a b c d e f g h show ?thesis by blast
qed

section \<open>Selecting the series that are due\<close>

lemma checkedNoLater_le: "checkedNoLater a b \<longleftrightarrow> a \<le> b"
  by (cases a; cases b) (simp_all add: checkedNoLater_def)

lemma take_sorted_least:
  assumes "sorted (map key xs)" "a \<in> set (take n xs)" "b \<in> set xs" "b \<notin> set (take n xs)"
  shows "key a \<le> key b"
proof -
  from assms(3,4) have "b \<in> set (drop n xs)"
    by (metis Un_iff append_take_drop_id set_append)
  moreover have "sorted (map key (take n xs) @ map key (drop n xs))"
    using assms(1) by (metis append_take_drop_id map_append)
  ultimately show ?thesis using assms(2) by (auto simp: sorted_append)
qed

lemma isDue_steady:
  assumes "localTZA w (clock w + localTZA w (clock w) True - 86400000) False = localTZA w (clock w) True"
  shows "isDue (checkThreshold w) = stale w"
  by (rule ext) (simp add: isDue_def stale_def checkThreshold_steady [OF assms] split: option.splits)

text \<open>
  The selection of a sweep while the local clock has not changed over the last day, in a
  world whose database answers and in which every tracked series has its series:
  \<^verbatim>\<open>getDueForCheck\<close> with the threshold of the sweep and the limit 100 returns at most
  100 tracked series; each of them is a row of the table that was never checked or was
  checked more than 24 hours before now; when at most 100 rows are that stale, it returns
  all of them; the series are listed oldest check first, the ones never checked before all
  others; and a stale row that is left out was checked no earlier than any series
  selected. The sweep then checks these series, in this order.
\<close>

lemma due_selection_steady:
  assumes f: "faults w = []"
    and k: "\<forall>row \<in> set (trackedSeriesTable w). seriesTable w (ts_seriesId row) \<noteq> None"
    and z: "localTZA w (clock w + localTZA w (clock w) True - 86400000) False
              = localTZA w (clock w) True"
  shows "\<exists>due. getDueForCheck (checkThreshold w) 100 w = (Inr due, w)
     \<and> length due \<le> 100
     \<and> (\<forall>t \<in> set due. trackedSeries.truncate t \<in> set (trackedSeriesTable w)
            \<and> (ts_lastChecked t = None
                \<or> (\<exists>c. ts_lastChecked t = Some c \<and> c < clock w - 24 * 60 * 60 * 1000)))
     \<and> (length (filter (stale w) (trackedSeriesTable w)) \<le> 100
          \<longrightarrow> mset (map trackedSeries.truncate due)
                = mset (filter (stale w) (trackedSeriesTable w)))
     \<and> sorted_wrt (\<lambda>a b. checkedNoLater (ts_lastChecked a) (ts_lastChecked b)) due
     \<and> (\<forall>t \<in> set due. \<forall>row \<in> set (trackedSeriesTable w).
            stale w row \<and> row \<notin> trackedSeries.truncate ` set due
            \<longrightarrow> checkedNoLater (ts_lastChecked t) (ts_lastChecked row))
     \<and> sweep isValidASIN w =
         (case checkEach isValidASIN due (logger INFO (FoundSeriesDue (length due)) w) of
            (Inl e, w2) \<Rightarrow> (Inl e, w2)
          | (Inr done, w2) \<Rightarrow> (Inr (), logger INFO ScheduledCheckCompleted w2))"
proof -
  define th where "th = checkThreshold w"
  have st: "isDue th = stale w" unfolding th_def using z by (rule isDue_steady)
  define sorted_due where "sorted_due = sort_key ts_lastChecked (filter (isDue th) (trackedSeriesTable w))"
  define rows where "rows = take 100 sorted_due"
  define due where "due = map (\<lambda>row. modelInstance row (seriesTable w (ts_seriesId row))) rows"
  have flt: "filter (\<lambda>row. isDue th row \<and> seriesTable w (ts_seriesId row) \<noteq> None) (trackedSeriesTable w)
      = filter (isDue th) (trackedSeriesTable w)"
    using k by (auto intro: filter_cong)
  have g: "getDueForCheck (checkThreshold w) 100 w = (Inr due, w)"
    using f flt by (simp add: getDueForCheck_def due_def rows_def sorted_due_def th_def)
  have tr: "map trackedSeries.truncate due = rows"
    by (simp add: due_def comp_def)
  have lc: "map ts_lastChecked due = map ts_lastChecked rows"
    by (simp add: due_def comp_def)
  have sub: "set rows \<subseteq> set (filter (isDue th) (trackedSeriesTable w))"
    using set_take_subset [of 100 sorted_due] by (simp add: rows_def sorted_due_def)
  have len: "length due \<le> 100" by (simp add: due_def rows_def)
  have mem: "\<forall>t \<in> set due. trackedSeries.truncate t \<in> set (trackedSeriesTable w)
            \<and> (ts_lastChecked t = None
                \<or> (\<exists>c. ts_lastChecked t = Some c \<and> c < clock w - 24 * 60 * 60 * 1000))"
  proof
    fix t assume "t \<in> set due"
    then obtain row where r: "row \<in> set rows" and t: "t = modelInstance row (seriesTable w (ts_seriesId row))"
      by (auto simp: due_def)
    from r sub have "row \<in> set (trackedSeriesTable w)" "isDue th row" by auto
    with t show "trackedSeries.truncate t \<in> set (trackedSeriesTable w)
            \<and> (ts_lastChecked t = None
                \<or> (\<exists>c. ts_lastChecked t = Some c \<and> c < clock w - 24 * 60 * 60 * 1000))"
      by (auto simp: st stale_def split: option.splits)
  qed
  have all: "length (filter (stale w) (trackedSeriesTable w)) \<le> 100
          \<longrightarrow> mset (map trackedSeries.truncate due)
                = mset (filter (stale w) (trackedSeriesTable w))"
  proof
    assume "length (filter (stale w) (trackedSeriesTable w)) \<le> 100"
    then have "length sorted_due \<le> 100" by (simp add: sorted_due_def st)
    then have "rows = sorted_due" by (simp add: rows_def)
    then show "mset (map trackedSeries.truncate due)
                = mset (filter (stale w) (trackedSeriesTable w))"
      by (simp add: tr sorted_due_def st)
  qed
  have srt: "sorted (map ts_lastChecked sorted_due)" by (simp add: sorted_due_def)
  then have "sorted (map ts_lastChecked rows)"
    by (simp add: rows_def take_map [symmetric] sorted_wrt_take)
  then have "sorted_wrt (\<lambda>a b. ts_lastChecked a \<le> ts_lastChecked b) due"
    by (simp add: lc [symmetric] sorted_map)
  then have ord: "sorted_wrt (\<lambda>a b. checkedNoLater (ts_lastChecked a) (ts_lastChecked b)) due"
    by (simp add: checkedNoLater_le)
  have top: "\<forall>t \<in> set due. \<forall>row \<in> set (trackedSeriesTable w).
            stale w row \<and> row \<notin> trackedSeries.truncate ` set due
            \<longrightarrow> checkedNoLater (ts_lastChecked t) (ts_lastChecked row)"
  proof (intro ballI impI)
    fix t row
    assume t: "t \<in> set due" and row: "row \<in> set (trackedSeriesTable w)"
      and h: "stale w row \<and> row \<notin> trackedSeries.truncate ` set due"
    from t obtain r where r: "r \<in> set rows" and tl: "ts_lastChecked t = ts_lastChecked r"
      by (auto simp: due_def)
    have "trackedSeries.truncate ` set due = set rows" using tr by (metis set_map)
    with h have nr: "row \<notin> set (take 100 sorted_due)" by (simp add: rows_def)
    from row h have "row \<in> set sorted_due" by (simp add: sorted_due_def st)
    from take_sorted_least [OF srt _ this nr] r
    have "ts_lastChecked r \<le> ts_lastChecked row" by (simp add: rows_def)
    with tl show "checkedNoLater (ts_lastChecked t) (ts_lastChecked row)"
      by (simp add: checkedNoLater_le)
  qed
  have sw: "sweep isValidASIN w =
         (case checkEach isValidASIN due (logger INFO (FoundSeriesDue (length due)) w) of
            (Inl e, w2) \<Rightarrow> (Inl e, w2)
          | (Inr done, w2) \<Rightarrow> (Inr (), logger INFO ScheduledCheckCompleted w2))"
    using g by (simp add: sweep_def await_apply)
  from g len mem all ord top sw show ?thesis by blast
qed


lemma example_steady:
  "localTZA exampleSchedule (clock exampleSchedule + localTZA exampleSchedule (clock exampleSchedule) True
      - 86400000) False = localTZA exampleSchedule (clock exampleSchedule) True"
  by (simp add: exampleSchedule_def exampleWorld_def exampleZone_def)

lemma example_due:
  "getDueForCheck (checkThreshold exampleSchedule) 100 exampleSchedule
     = (Inr [modelInstance (exampleRow 2 None) (Some exampleSeries),
             modelInstance (exampleRow 1 (Some 1699827200000)) (Some exampleSeries)],
        exampleSchedule)"
proof -
  have "checkThreshold exampleSchedule = 1699913600000"
    using checkThreshold_steady [OF example_steady]
    by (simp add: exampleSchedule_def exampleWorld_def)
  then show ?thesis
    by (simp add: getDueForCheck_def exampleSchedule_def exampleWorld_def exampleRow_def
        exampleTracked_def isDue_def)
qed

lemma due_selection_steady_example:
  "getDueForCheck (checkThreshold exampleSchedule) 100 exampleSchedule
     = (Inr [modelInstance (exampleRow 2 None) (Some exampleSeries),
             modelInstance (exampleRow 1 (Some 1699827200000)) (Some exampleSeries)],
        exampleSchedule)
   \<and> sorted_wrt (\<lambda>a b. checkedNoLater (ts_lastChecked a) (ts_lastChecked b))
        [modelInstance (exampleRow 2 None) (Some exampleSeries),
         modelInstance (exampleRow 1 (Some 1699827200000)) (Some exampleSeries)]"
proof -
  have f: "faults exampleSchedule = []"
    and k: "\<forall>row \<in> set (trackedSeriesTable exampleSchedule).
              seriesTable exampleSchedule (ts_seriesId row) \<noteq> None"
    by (simp_all add: exampleSchedule_def exampleWorld_def exampleRow_def exampleTracked_def)
  from due_selection_steady [OF f k example_steady, of validASIN] obtain due where
    "getDueForCheck (checkThreshold exampleSchedule) 100 exampleSchedule = (Inr due, exampleSchedule)"
    "sorted_wrt (\<lambda>a b. checkedNoLater (ts_lastChecked a) (ts_lastChecked b)) due"
    by blast
  with example_due show ?thesis by simp
qed

text \<open>
  C7. Across a change of the local clock the threshold of the sweep is not 24 hours before
  now. \<^verbatim>\<open>setHours(getHours() - 24)\<close> sets the local clock back by a day, which is 25
  hours after the clocks went back and 23 hours after they went forward. Eleven hours after
  the clocks went back, a series checked 24 hours and 30 minutes ago is stale and is not
  selected: the sweep finds nothing due. Eleven hours after the clocks went forward, a
  series checked 23 hours and 30 minutes ago is not stale and is selected.
\<close>

theorem due_selection_across_clock_change:
  "stale exampleFallBack (exampleRow 1 (Some 1698492600000))
   \<and> checkThreshold exampleFallBack = clock exampleFallBack - 25 * 60 * 60 * 1000
   \<and> getDueForCheck (checkThreshold exampleFallBack) 100 exampleFallBack
       = (Inr [], exampleFallBack)
   \<and> sweep validASIN exampleFallBack
       = (Inr (), exampleFallBack\<lparr>trace := [Log INFO (FoundSeriesDue 0),
                                                 Log INFO ScheduledCheckCompleted]\<rparr>)
   \<and> \<not> stale exampleSpringForward (exampleRow 1 (Some 1679747400000))
   \<and> checkThreshold exampleSpringForward = clock exampleSpringForward - 23 * 60 * 60 * 1000
   \<and> getDueForCheck (checkThreshold exampleSpringForward) 100 exampleSpringForward
       = (Inr [modelInstance (exampleRow 1 (Some 1679747400000)) (Some exampleSeries)],
          exampleSpringForward)"
proof -
  have a: "checkThreshold exampleFallBack = 1698490800000"
    by (simp add: checkThreshold_local UTC_def LocalTime_def msPerHour_def exampleFallBack_def
        exampleWorld_def exampleZone_def)
  have b: "checkThreshold exampleSpringForward = 1679749200000"
    by (simp add: checkThreshold_local UTC_def LocalTime_def msPerHour_def exampleSpringForward_def
        exampleWorld_def exampleZone_def)
  have c: "getDueForCheck 1698490800000 100 exampleFallBack = (Inr [], exampleFallBack)"
    by (simp add: getDueForCheck_def exampleFallBack_def exampleWorld_def exampleRow_def
        exampleTracked_def isDue_def)
  have d: "getDueForCheck 1679749200000 100 exampleSpringForward
       = (Inr [modelInstance (exampleRow 1 (Some 1679747400000)) (Some exampleSeries)],
          exampleSpringForward)"
    by (simp add: getDueForCheck_def exampleSpringForward_def exampleWorld_def exampleRow_def
        exampleTracked_def isDue_def)
  have e: "sweep validASIN exampleFallBack
       = (Inr (), exampleFallBack\<lparr>trace := [Log INFO (FoundSeriesDue 0),
                                                 Log INFO ScheduledCheckCompleted]\<rparr>)"
    by (simp add: sweep_def await_apply a c logger_def) (simp add: exampleFallBack_def exampleWorld_def)
  have f: "stale exampleFallBack (exampleRow 1 (Some 1698492600000))"
    "\<not> stale exampleSpringForward (exampleRow 1 (Some 1679747400000))"
    "clock exampleFallBack - 25 * 60 * 60 * 1000 = 1698490800000"
    "clock exampleSpringForward - 23 * 60 * 60 * 1000 = 1679749200000"
    by (simp_all add: stale_def exampleFallBack_def exampleSpringForward_def exampleWorld_def
        exampleRow_def exampleTracked_def)
  from a b c d e f show ?thesis by simp
qed

section \<open>Listing the releases of a tracked series\<close>

lemma sequenceKey_le:
  "sequenceKey cast a \<le> sequenceKey cast b \<longleftrightarrow> markerNoLater cast (nr_sequence a) (nr_sequence b)"
  by (cases "nr_sequence a"; cases "nr_sequence b")
     (simp_all add: sequenceKey_def markerNoLater_def less_eq_prod_def)

text \<open>
  C9, as amended. In a world whose database answers, \<^verbatim>\<open>getForTrackedSeries\<close> returns
  the releases of the tracked series (the dismissed ones only when asked for), each once,
  in ascending order of the number the cast of the database gives their sequence marker,
  and the releases without a marker after all releases with one. A marker that is not a
  number is a marker: the cast gives it a number, and it is listed at that number.
\<close>

theorem releases_by_marker:
  "faults w = [] \<longrightarrow>
     (\<exists>rows. getForTrackedSeries cast trackedSeriesId options w = (Inr rows, w)
        \<and> mset rows = mset (filter (\<lambda>row. nr_trackedSeriesId row = trackedSeriesId
                                      \<and> (includeDismissed options \<or> \<not> nr_dismissed row))
                               (newReleaseTable w))
        \<and> sorted_wrt (\<lambda>a b. markerNoLater cast (nr_sequence a) (nr_sequence b)) rows)"
proof
  assume f: "faults w = []"
  define rows where "rows = sort_key (sequenceKey cast)
      (filter (\<lambda>row. nr_trackedSeriesId row = trackedSeriesId
                    \<and> (includeDismissed options \<or> \<not> nr_dismissed row)) (newReleaseTable w))"
  have g: "getForTrackedSeries cast trackedSeriesId options w = (Inr rows, w)"
    using f by (simp add: getForTrackedSeries_def rows_def)
  have m: "mset rows = mset (filter (\<lambda>row. nr_trackedSeriesId row = trackedSeriesId
                                      \<and> (includeDismissed options \<or> \<not> nr_dismissed row))
                               (newReleaseTable w))"
    by (simp add: rows_def)
  have "sorted (map (sequenceKey cast) rows)" by (simp add: rows_def)
  then have "sorted_wrt (\<lambda>a b. sequenceKey cast a \<le> sequenceKey cast b) rows"
    by (simp add: sorted_map)
  then have s: "sorted_wrt (\<lambda>a b. markerNoLater cast (nr_sequence a) (nr_sequence b)) rows"
    by (simp add: sequenceKey_le)
  from g m s show "\<exists>rows. getForTrackedSeries cast trackedSeriesId options w = (Inr rows, w)
        \<and> mset rows = mset (filter (\<lambda>row. nr_trackedSeriesId row = trackedSeriesId
                                      \<and> (includeDismissed options \<or> \<not> nr_dismissed row))
                               (newReleaseTable w))
        \<and> sorted_wrt (\<lambda>a b. markerNoLater cast (nr_sequence a) (nr_sequence b)) rows"
    by blast
qed

lemma example_casts: "sqliteCast ''Prequel'' = 0" "sqliteCast ''1'' = 1"
  by (simp_all add: sqliteCast_def isSpace_def isDigit_def digitsValue_def)

lemma example_listing:
  "getForTrackedSeries sqliteCast 1 \<lparr>includeDismissed = False\<rparr> exampleShelf
     = (Inr [exampleRelease 52 ''B0BOOK0000'' (Some ''Prequel''),
             exampleRelease 50 ''B0BOOK0002'' (Some ''1''),
             exampleRelease 51 ''B0BOOK0009'' None],
        exampleShelf)"
  by (simp add: getForTrackedSeries_def exampleShelf_def exampleWorld_def exampleRelease_def
      sequenceKey_def example_casts less_eq_prod_def)

theorem releases_by_marker_witness:
  "faults exampleShelf = []
   \<and> getForTrackedSeries sqliteCast 1 \<lparr>includeDismissed = False\<rparr> exampleShelf
     = (Inr [exampleRelease 52 ''B0BOOK0000'' (Some ''Prequel''),
             exampleRelease 50 ''B0BOOK0002'' (Some ''1''),
             exampleRelease 51 ''B0BOOK0009'' None],
        exampleShelf)
   \<and> sorted_wrt (\<lambda>a b. markerNoLater sqliteCast (nr_sequence a) (nr_sequence b))
        [exampleRelease 52 ''B0BOOK0000'' (Some ''Prequel''),
         exampleRelease 50 ''B0BOOK0002'' (Some ''1''),
         exampleRelease 51 ''B0BOOK0009'' None]"
proof -
  have f: "faults exampleShelf = []" by (simp add: exampleShelf_def exampleWorld_def)
  from releases_by_marker [where w = exampleShelf and cast = sqliteCast and trackedSeriesId = 1
      and options = "\<lparr>includeDismissed = False\<rparr>"] f
  obtain rows where
    "getForTrackedSeries sqliteCast 1 \<lparr>includeDismissed = False\<rparr> exampleShelf = (Inr rows, exampleShelf)"
    "sorted_wrt (\<lambda>a b. markerNoLater sqliteCast (nr_sequence a) (nr_sequence b)) rows"
    by blast
  with example_listing f show ?thesis by simp
qed

text \<open>
  C9, as stated, fails: the release whose marker is \<^verbatim>\<open>Prequel\<close>, which is not a number,
  is listed before the release with the marker \<^verbatim>\<open>1\<close>, not after it.
\<close>

theorem text_marker_listed_first:
  "sqliteCast ''Prequel'' = 0 \<and> sqliteCast ''1'' = 1
   \<and> fst (getForTrackedSeries sqliteCast 1 \<lparr>includeDismissed = False\<rparr> exampleShelf)
     = Inr [exampleRelease 52 ''B0BOOK0000'' (Some ''Prequel''),
            exampleRelease 50 ''B0BOOK0002'' (Some ''1''),
            exampleRelease 51 ''B0BOOK0009'' None]"
  using example_casts example_listing by simp

section \<open>The single-flight guard\<close>




section \<open>Following a series\<close>

lemma quiet_following [simp]: "quiet (following u s)" "quiet seriesTable" "quiet trackedSeriesTable"
  by (simp_all add: quiet_def following_def)

lemma seriesFindByPk_result:
  "seriesFindByPk s w = (Inr r, w') \<Longrightarrow> r = seriesTable w' s"
  unfolding seriesFindByPk_def by (drule statement_read) auto

lemma getByUserAndSeries_result:
  "getByUserAndSeries u s w = (Inr r, w') \<Longrightarrow> r = following u s w'"
  unfolding getByUserAndSeries_def following_def by (drule statement_read) auto

lemma kept: "keeps f p \<Longrightarrow> p w = (r, w') \<Longrightarrow> f w' = f w"
  by (metis keeps_def snd_conv)

lemma find_append_new: "find P xs = None \<Longrightarrow> P x \<Longrightarrow> find P (xs @ [x]) = Some x"
  by (induction xs) (auto split: if_splits)

lemma insertTrackedSeries_result:
  assumes "insertTrackedSeries vals w = (Inr t, w')" "following (td_userId vals) (td_seriesId vals) w = None"
  shows "following (td_userId vals) (td_seriesId vals) w' = Some t \<and> seriesTable w' = seriesTable w"
  using assms
  by (auto simp: insertTrackedSeries_def following_def Let_def find_append_new split: if_splits)

lemma trackedSeriesCreate_result:
  assumes "trackedSeriesCreate vals w = (Inr t, w')" "following (td_userId vals) (td_seriesId vals) w = None"
  shows "following (td_userId vals) (td_seriesId vals) w' = Some t \<and> seriesTable w' = seriesTable w"
proof (cases "faults w")
  case Nil
  with assms(1) have "insertTrackedSeries vals w = (Inr t, w')" by (simp add: trackedSeriesCreate_def)
  from insertTrackedSeries_result [OF this assms(2)] show ?thesis .
next
  case (Cons failed rest)
  with assms(1) have i: "insertTrackedSeries vals (w\<lparr>faults := rest\<rparr>) = (Inr t, w')"
    by (cases failed) (auto simp: trackedSeriesCreate_def statement_def)
  have "following (td_userId vals) (td_seriesId vals) (w\<lparr>faults := rest\<rparr>) = None"
    using assms(2) by (simp add: following_def)
  from insertTrackedSeries_result [OF i this] show ?thesis by simp
qed

lemma createTrackedSeries_result:
  assumes "createTrackedSeries data w = (Inr t, w')"
  shows "following (td_userId data) (td_seriesId data) w' = Some t \<and> seriesTable w' = seriesTable w"
proof -
  obtain r wa where g: "getByUserAndSeries (td_userId data) (td_seriesId data) w = (r, wa)"
    by (cases "getByUserAndSeries (td_userId data) (td_seriesId data) w")
  have ka: "seriesTable wa = seriesTable w"
    by (rule kept [where f = seriesTable and p = "getByUserAndSeries (td_userId data) (td_seriesId data)", OF _ g]) auto
  show ?thesis
  proof (cases r)
    case (Inl e)
    with assms g show ?thesis by (simp add: createTrackedSeries_def await_apply)
  next
    case (Inr existing)
    with g have e: "existing = following (td_userId data) (td_seriesId data) wa"
      using getByUserAndSeries_result by blast
    show ?thesis
    proof (cases existing)
      case (Some found)
      with assms g Inr have "t = found" "w' = wa" by (simp_all add: createTrackedSeries_def await_apply)
      moreover from e Some have "following (td_userId data) (td_seriesId data) wa = Some found" by simp
      ultimately show ?thesis using ka by simp
    next
      case None
      with assms g Inr have c: "trackedSeriesCreate
             \<lparr>td_userId = td_userId data, td_seriesId = td_seriesId data,
              td_seriesAsin = (if truthy (td_seriesAsin data) then td_seriesAsin data else None),
              td_autoTracked = td_autoTracked data,
              td_region = (if truthy (td_region data) then td_region data else Some ''us'')\<rparr> wa = (Inr t, w')"
        by (simp add: createTrackedSeries_def await_apply)
      from e None have "following (td_userId data) (td_seriesId data) wa = None" by simp
      with trackedSeriesCreate_result [OF c] ka show ?thesis by simp
    qed
  qed
qed

lemma followSeriesAsin_keeps:
  "quiet f \<Longrightarrow> f (snd (followSeriesAsin isValidASIN region books w)) = f w"
  by (induction books arbitrary: w) (auto simp: quiet_def split: option.splits)

lemma keeps_followSeriesAsin [intro!]:
  "quiet f \<Longrightarrow> keeps f (followSeriesAsin isValidASIN region books)"
  by (simp add: keeps_def followSeriesAsin_keeps)

lemma keeps_followRegion [intro!]: "quiet f \<Longrightarrow> keeps f (followRegion bodyRegion books)"
  unfolding followRegion_def Let_def by (auto split: list.splits option.splits)

lemma followSeries_result:
  assumes "followSeries isValidASIN u s body w = (Inr (Json t, started), w1)"
  shows "following u s w1 = Some t \<and> seriesTable w1 s \<noteq> None"
proof -
  obtain r1 wa where s1: "seriesFindByPk s w = (r1, wa)" by (cases "seriesFindByPk s w")
  show ?thesis
  proof (cases r1)
    case (Inl e)
    with assms s1 show ?thesis by (simp add: followSeries_def await_apply)
  next
    case (Inr found)
    with s1 have f: "found = seriesTable wa s" using seriesFindByPk_result by blast
    show ?thesis
    proof (cases found)
      case None
      with assms s1 Inr show ?thesis by (simp add: followSeries_def await_apply)
    next
      case (Some x)
      with f have sx: "seriesTable wa s = Some x" by simp
      obtain r2 wb where s2: "getByUserAndSeries u s wa = (r2, wb)" by (cases "getByUserAndSeries u s wa")
      have kb: "seriesTable wb = seriesTable wa" by (rule kept [where f = seriesTable and p = "getByUserAndSeries u s", OF _ s2]) auto
      show ?thesis
      proof (cases r2)
        case (Inl e)
        with assms s1 s2 Inr Some show ?thesis by (simp add: followSeries_def await_apply)
      next
        case r2: (Inr existing)
        with s2 have e: "existing = following u s wb" using getByUserAndSeries_result by blast
        show ?thesis
        proof (cases existing)
          case ex: (Some tracked)
          with assms s1 s2 Inr Some r2 have "t = tracked" "w1 = wb"
            by (simp_all add: followSeries_def await_apply)
          moreover from e ex have "following u s wb = Some tracked" by simp
          ultimately show ?thesis using sx kb by simp
        next
          case None
          obtain r3 wc where s3: "getBooksExpandedWithLibraryItem s wb = (r3, wc)"
            by (cases "getBooksExpandedWithLibraryItem s wb")
          have kc: "seriesTable wc = seriesTable wb" by (rule kept [where f = seriesTable and p = "getBooksExpandedWithLibraryItem s", OF _ s3]) auto
          show ?thesis
          proof (cases r3)
            case (Inl e)
            with assms s1 s2 s3 Inr Some r2 None show ?thesis by (simp add: followSeries_def await_apply)
          next
            case r3: (Inr books)
            obtain r4 wd where s4: "followRegion body books wc = (r4, wd)"
              by (cases "followRegion body books wc")
            have kd: "seriesTable wd = seriesTable wc" by (rule kept [where f = seriesTable and p = "followRegion body books", OF _ s4]) auto
            show ?thesis
            proof (cases r4)
              case (Inl e)
              with assms s1 s2 s3 s4 Inr Some r2 None r3 show ?thesis
                by (simp add: followSeries_def await_apply)
            next
              case r4: (Inr region)
              obtain r5 we where s5: "followSeriesAsin isValidASIN region books wd = (r5, we)"
                by (cases "followSeriesAsin isValidASIN region books wd")
              have ke: "seriesTable we = seriesTable wd" by (rule kept [where f = seriesTable and p = "followSeriesAsin isValidASIN region books", OF _ s5]) auto
              show ?thesis
              proof (cases r5)
                case (Inl e)
                with assms s1 s2 s3 s4 s5 Inr Some r2 None r3 r4 show ?thesis
                  by (simp add: followSeries_def await_apply)
              next
                case r5: (Inr seriesAsin)
                obtain r6 wf where s6: "createTrackedSeries
                    \<lparr>td_userId = u, td_seriesId = s, td_seriesAsin = seriesAsin,
                     td_autoTracked = False, td_region = region\<rparr> we = (r6, wf)"
                  by (cases "createTrackedSeries
                    \<lparr>td_userId = u, td_seriesId = s, td_seriesAsin = seriesAsin,
                     td_autoTracked = False, td_region = region\<rparr> we")
                show ?thesis
                proof (cases r6)
                  case (Inl e)
                  with assms s1 s2 s3 s4 s5 s6 Inr Some r2 None r3 r4 r5 show ?thesis
                    by (simp add: followSeries_def await_apply)
                next
                  case r6: (Inr tracked)
                  with assms s1 s2 s3 s4 s5 s6 Inr Some r2 None r3 r4 r5
                  have "t = tracked" "w1 = wf" by (simp_all add: followSeries_def await_apply)
                  with createTrackedSeries_result [OF s6 [unfolded r6]] sx kb kc kd ke
                  show ?thesis by simp
                qed
              qed
            qed
          qed
        qed
      qed
    qed
  qed
qed

lemma following_identity:
  assumes "map trackedIdentity (trackedSeriesTable w2) = map trackedIdentity (trackedSeriesTable w1)"
    "following u s w1 = Some t"
  shows "\<exists>again. following u s w2 = Some again \<and> ts_id again = ts_id t"
proof -
  have "map trackedIdentity ys = map trackedIdentity xs \<Longrightarrow>
        find (\<lambda>row. ts_userId row = u \<and> ts_seriesId row = s) xs = Some x \<Longrightarrow>
        \<exists>y. find (\<lambda>row. ts_userId row = u \<and> ts_seriesId row = s) ys = Some y \<and> ts_id y = ts_id x"
    for xs ys x
  proof (induction xs arbitrary: ys)
    case Nil
    then show ?case by simp
  next
    case (Cons a xs)
    then obtain b ys' where ys: "ys = b # ys'" by (cases ys) auto
    with Cons.prems(1) have ab: "trackedIdentity b = trackedIdentity a"
      and rest: "map trackedIdentity ys' = map trackedIdentity xs" by simp_all
    show ?case
    proof (cases "ts_userId a = u \<and> ts_seriesId a = s")
      case True
      with Cons.prems(2) have "x = a" by simp
      with True ab ys show ?thesis by (auto simp: trackedIdentity_def)
    next
      case False
      with Cons.prems(2) have "find (\<lambda>row. ts_userId row = u \<and> ts_seriesId row = s) xs = Some x"
        by auto
      from Cons.IH [OF rest this] False ab ys show ?thesis by (auto simp: trackedIdentity_def)
    qed
  qed
  note step = this
  from assms(2) obtain z
    where z: "find (\<lambda>row. ts_userId row = u \<and> ts_seriesId row = s) (trackedSeriesTable w1) = Some z"
      and t: "t = modelInstance z None" by (auto simp: following_def)
  from step [OF assms(1) z] obtain y
    where y: "find (\<lambda>row. ts_userId row = u \<and> ts_seriesId row = s) (trackedSeriesTable w2) = Some y"
      and i: "ts_id y = ts_id z" by blast
  from y have "following u s w2 = Some (modelInstance y None)" by (simp add: following_def)
  with i t show ?thesis by simp
qed

lemma followSeries_again:
  assumes "following u s w = Some t" "seriesTable w s \<noteq> None"
  shows "followSeries isValidASIN u s body w = (Inr (Json t, None), w\<lparr>faults := tl (tl (faults w))\<rparr>)
         \<or> (\<exists>rest. faults w \<noteq> []
                  \<and> followSeries isValidASIN u s body w = (Inl DatabaseError, w\<lparr>faults := rest\<rparr>))"
proof -
  obtain r1 wa where s1: "seriesFindByPk s w = (r1, wa)" by (cases "seriesFindByPk s w")
  from statement_read_any [OF s1 [unfolded seriesFindByPk_def]]
  have wa: "wa = w\<lparr>faults := tl (faults w)\<rparr>"
    and r1: "r1 = Inr (seriesTable wa s) \<or> (faults w \<noteq> [] \<and> r1 = Inl DatabaseError)" by blast+
  from r1 show ?thesis
  proof
    assume "faults w \<noteq> [] \<and> r1 = Inl DatabaseError"
    with s1 wa show ?thesis by (auto simp: followSeries_def await_apply)
  next
    assume a1: "r1 = Inr (seriesTable wa s)"
    from wa assms(2) obtain x where x: "seriesTable wa s = Some x" by auto
    obtain r2 wb where s2: "getByUserAndSeries u s wa = (r2, wb)" by (cases "getByUserAndSeries u s wa")
    from statement_read_any [OF s2 [unfolded getByUserAndSeries_def]]
    have wb: "wb = wa\<lparr>faults := tl (faults wa)\<rparr>"
      and r2: "r2 = Inr (following u s wb) \<or> (faults wa \<noteq> [] \<and> r2 = Inl DatabaseError)"
      unfolding following_def by blast+
    from wa wb have wb': "wb = w\<lparr>faults := tl (tl (faults w))\<rparr>" by simp
    then have f: "following u s wb = Some t" using assms(1) by (simp add: following_def)
    from wa have nonempty: "faults wa \<noteq> [] \<Longrightarrow> faults w \<noteq> []" by auto
    from r2 show ?thesis
    proof
      assume "faults wa \<noteq> [] \<and> r2 = Inl DatabaseError"
      with s1 s2 a1 x wb' nonempty show ?thesis by (auto simp: followSeries_def await_apply)
    next
      assume "r2 = Inr (following u s wb)"
      with s1 s2 a1 x wb' f show ?thesis by (auto simp: followSeries_def await_apply)
    qed
  qed
qed

text \<open>
  C3. After a call of \<^verbatim>\<open>followSeries\<close> that answered with a tracked series, that tracked
  series is of the user and the series of the call, and a second call for the same user
  and series, whatever region it asks for, answers with the same tracked series, starts no
  check and leaves every table as it is: the world after it differs only in the fault
  schedule, of which its two queries took their entries. It rejects only if the database
  fails one of the two queries. The same holds after the check the first call started has
  run: the check leaves the identities of the tracked series as they are, and the second
  call answers with the tracked series of the same id.
\<close>

theorem follow_twice:
  assumes "followSeries isValidASIN userId seriesId region w = (Inr (Json tracked, started), w1)"
  shows "ts_userId tracked = userId \<and> ts_seriesId tracked = seriesId
    \<and> (followSeries isValidASIN userId seriesId region' w1
          = (Inr (Json tracked, None), w1\<lparr>faults := tl (tl (faults w1))\<rparr>)
        \<or> (\<exists>rest. faults w1 \<noteq> []
              \<and> followSeries isValidASIN userId seriesId region' w1
                  = (Inl DatabaseError, w1\<lparr>faults := rest\<rparr>)))
    \<and> (\<exists>w2 again.
          w2 = snd (manualCheck isValidASIN (ts_id tracked) w1)
          \<and> map trackedIdentity (trackedSeriesTable w2) = map trackedIdentity (trackedSeriesTable w1)
          \<and> ts_id again = ts_id tracked
          \<and> (followSeries isValidASIN userId seriesId region' w2
                = (Inr (Json again, None), w2\<lparr>faults := tl (tl (faults w2))\<rparr>)
              \<or> (\<exists>rest. faults w2 \<noteq> []
                  \<and> followSeries isValidASIN userId seriesId region' w2
                      = (Inl DatabaseError, w2\<lparr>faults := rest\<rparr>))))"
proof -
  from followSeries_result [OF assms]
  have f: "following userId seriesId w1 = Some tracked" and s: "seriesTable w1 seriesId \<noteq> None"
    by simp_all
  from f have own: "ts_userId tracked = userId \<and> ts_seriesId tracked = seriesId"
    by (auto simp: following_def dest: find_Some_iff [THEN iffD1])
  let ?w2 = "snd (manualCheck isValidASIN (ts_id tracked) w1)"
  let ?f = "\<lambda>w. (seriesTable w, map trackedIdentity (trackedSeriesTable w))"
  have "keeps ?f (manualCheck isValidASIN (ts_id tracked))"
    by (rule keeps_manualCheck) (simp_all add: quiet_def releaseFree_def identityOnly_def)
  then have k: "?f ?w2 = ?f w1" by (simp add: keeps_def)
  then have ids: "map trackedIdentity (trackedSeriesTable ?w2) = map trackedIdentity (trackedSeriesTable w1)"
    and s2: "seriesTable ?w2 seriesId \<noteq> None" using s by simp_all
  from following_identity [OF ids f] obtain again
    where a: "following userId seriesId ?w2 = Some again" "ts_id again = ts_id tracked" by blast
  from followSeries_again [OF a(1) s2, where isValidASIN = isValidASIN and body = region'] ids a(2)
  have third: "\<exists>w2 again.
          w2 = snd (manualCheck isValidASIN (ts_id tracked) w1)
          \<and> map trackedIdentity (trackedSeriesTable w2) = map trackedIdentity (trackedSeriesTable w1)
          \<and> ts_id again = ts_id tracked
          \<and> (followSeries isValidASIN userId seriesId region' w2
                = (Inr (Json again, None), w2\<lparr>faults := tl (tl (faults w2))\<rparr>)
              \<or> (\<exists>rest. faults w2 \<noteq> []
                  \<and> followSeries isValidASIN userId seriesId region' w2
                      = (Inl DatabaseError, w2\<lparr>faults := rest\<rparr>)))"
    by (intro exI conjI) (rule refl, assumption+)
  from own followSeries_again [OF f s, where isValidASIN = isValidASIN and body = region'] third
  show ?thesis by (intro conjI) simp_all
qed

lemma example_follow:
  "followSeries validASIN 6 7 None exampleWorld
     = (Inr (Json (modelInstance exampleFollowed None), Some 100), exampleAfterFollow)"
  by (simp add: followSeries_def await_apply seriesFindByPk_def getByUserAndSeries_def
      getBooksExpandedWithLibraryItem_def followRegion_def createTrackedSeries_def
      trackedSeriesCreate_def insertTrackedSeries_def hasUniqueIndex_def up_def
      findSeriesAsinFromBook_def asinSearch_def extractSeriesInfo_def
      getSeriesInfoFromAudible_def example_eval
      exampleWorld_def exampleAfterFollow_def exampleFollowed_def exampleSeries_def
      exampleTracked_def exampleLibraryBook_def)

theorem follow_twice_witness:
  "followSeries validASIN 6 7 None exampleWorld
     = (Inr (Json (modelInstance exampleFollowed None), Some 100), exampleAfterFollow)
   \<and> followSeries validASIN 6 7 (Some ''uk'') exampleAfterFollow
     = (Inr (Json (modelInstance exampleFollowed None), None), exampleAfterFollow)"
proof -
  have e: "faults exampleAfterFollow = []" by (simp add: exampleAfterFollow_def exampleWorld_def)
  then have "exampleAfterFollow\<lparr>faults := tl (tl (faults exampleAfterFollow))\<rparr> = exampleAfterFollow"
    by simp
  with follow_twice [OF example_follow, where region' = "Some ''uk''"] e example_follow
  show ?thesis by simp
qed


end
